theory Spec2Isabelle
  imports Complex_Main
begin

section \<open>Room model (backend/models/room.py)\<close>

text \<open>The room state machine states of \<^verbatim>\<open>RoomStatus\<close>.\<close>

datatype RoomStatus = OPEN | SORTED | MESSAGING

text \<open>\<^verbatim>\<open>RoomParams\<close>: the fields \<^verbatim>\<open>P\<close> and \<^verbatim>\<open>g\<close>, two decimal strings.\<close>

record RoomParams =
  param_P :: string
  param_g :: string

text \<open>
  \<^verbatim>\<open>Room\<close>. The field \<^verbatim>\<open>id\<close> is written \<open>id'\<close>. A \<^verbatim>\<open>datetime\<close> is the
  number of microseconds since the epoch, so that the difference of two of them is a
  \<^verbatim>\<open>timedelta\<close> in microseconds. \<^verbatim>\<open>version\<close> is a Python integer.
\<close>

record Room =
  id' :: string
  status :: RoomStatus
  params :: RoomParams
  session_public_key :: string
  chair_secret_hash :: string
  participants :: "string list"
  sorted_keys :: "string list"
  messages :: "string list"
  created_at :: int
  version :: int

section \<open>The shared dictionary and the clock (backend/storage/room\_store.py)\<close>

text \<open>
  \<^verbatim>\<open>rooms_dict\<close> is a dictionary shared by every client of the service, and
  \<^verbatim>\<open>datetime.utcnow()\<close> reads a clock that nobody controls. Both are the \<open>world\<close>.
  The dictionary holds the JSON text of a room; \<^verbatim>\<open>model_dump_json\<close> followed by
  \<^verbatim>\<open>model_validate_json\<close> gives the room back, so the model stores the room.
\<close>

record world =
  rooms_dict :: "string \<rightharpoonup> Room"
  utcnow :: int

text \<open>
  A Python float that the program obtains by dividing one integer by another with \<^verbatim>\<open>/\<close>:
  \<open>TrueDiv a b\<close> is the float of \<^verbatim>\<open>a / b\<close>, the double nearest to the quotient. The model
  keeps the two integers and never computes with the double.
\<close>

datatype py_float = TrueDiv nat nat

text \<open>
  One client's view of the system: the world, what the other clients and the clock will do
  between this client's accesses to the world (\<open>pending\<close>, one step per access), and the
  delays this client has slept so far, in seconds, oldest first.
\<close>

record sys =
  world :: world
  pending :: "(world \<Rightarrow> world) list"
  slept :: "py_float list"

text \<open>
  Before each access of this client to the dictionary or to the clock, the rest of the
  system takes its next step. With nothing pending the client runs alone.
\<close>

definition yield :: "sys \<Rightarrow> sys" where
  "yield s = (case pending s of
                [] \<Rightarrow> s
              | f # fs \<Rightarrow> s\<lparr>world := f (world s), pending := fs\<rparr>)"

text \<open>
  The exceptions the store raises to its callers, and the \<^verbatim>\<open>KeyError\<close> of the dictionary,
  which the store catches wherever it can arise.
\<close>

datatype error = ValueError string | ConcurrentModificationError string

datatype key_error = KeyError string

definition ROOM_TTL_SECONDS :: int where
  "ROOM_TTL_SECONDS = 30 * 24 * 60 * 60"

definition MAX_RETRIES :: nat where
  "MAX_RETRIES = 5"

definition RETRY_DELAY_MS :: nat where
  "RETRY_DELAY_MS = 50"

text \<open>\<^verbatim>\<open>str(n)\<close> for a length \<open>n\<close>, as the f-strings of the error messages print it.\<close>

function str_nat :: "nat \<Rightarrow> string" where
  "str_nat n = (if n < 10 then [char_of (48 + n)]
                else str_nat (n div 10) @ [char_of (48 + n mod 10)])"
  by pat_completeness auto
termination
  by (relation "measure (\<lambda>n. n)") auto

declare str_nat.simps [simp del]

text \<open>\<^verbatim>\<open>timedelta(seconds=n)\<close>, in microseconds.\<close>

definition timedelta_seconds :: "int \<Rightarrow> int" where
  "timedelta_seconds n = n * 1000000"

text \<open>\<^verbatim>\<open>rooms_dict.get(key)\<close>\<close>

definition rooms_dict_get :: "string \<Rightarrow> sys \<Rightarrow> Room option \<times> sys" where
  "rooms_dict_get key s0 = (let s = yield s0 in (rooms_dict (world s) key, s))"

text \<open>\<^verbatim>\<open>rooms_dict.pop(key)\<close>, which raises \<^verbatim>\<open>KeyError\<close> on a missing key.\<close>

definition rooms_dict_pop :: "string \<Rightarrow> sys \<Rightarrow> (key_error + Room) \<times> sys" where
  "rooms_dict_pop key s0 =
     (let s = yield s0 in
      case rooms_dict (world s) key of
        None \<Rightarrow> (Inl (KeyError key), s)
      | Some v \<Rightarrow> (Inr v, s\<lparr>world := (world s)\<lparr>rooms_dict := (rooms_dict (world s))(key := None)\<rparr>\<rparr>))"

text \<open>\<^verbatim>\<open>rooms_dict[key] = value\<close>\<close>

definition rooms_dict_setitem :: "string \<Rightarrow> Room \<Rightarrow> sys \<Rightarrow> sys" where
  "rooms_dict_setitem key v s0 =
     (let s = yield s0 in
      s\<lparr>world := (world s)\<lparr>rooms_dict := (rooms_dict (world s))(key \<mapsto> v)\<rparr>\<rparr>)"

text \<open>\<^verbatim>\<open>datetime.utcnow()\<close>\<close>

definition datetime_utcnow :: "sys \<Rightarrow> int \<times> sys" where
  "datetime_utcnow s0 = (let s = yield s0 in (utcnow (world s), s))"

text \<open>\<^verbatim>\<open>time.sleep(seconds)\<close>: the delay is recorded.\<close>

definition time_sleep :: "py_float \<Rightarrow> sys \<Rightarrow> sys" where
  "time_sleep seconds s = s\<lparr>slept := slept s @ [seconds]\<rparr>"

section \<open>RoomStore\<close>

text \<open>\<^verbatim>\<open>RoomStore.create_room\<close>\<close>

definition create_room :: "Room \<Rightarrow> sys \<Rightarrow> string \<times> sys" where
  "create_room room s = (id' room, rooms_dict_setitem (id' room) room s)"

text \<open>
  \<^verbatim>\<open>RoomStore.get_room\<close>: \<open>None\<close> when the room is missing or older than the retention
  window; an expired room is popped, and a \<^verbatim>\<open>KeyError\<close> of the pop is swallowed.
\<close>

definition get_room :: "string \<Rightarrow> sys \<Rightarrow> Room option \<times> sys" where
  "get_room room_id s0 =
     (let (data, s1) = rooms_dict_get room_id s0 in
      case data of
        None \<Rightarrow> (None, s1)
      | Some room \<Rightarrow>
          let (now, s2) = datetime_utcnow s1 in
          if now - created_at room > timedelta_seconds ROOM_TTL_SECONDS then
            let (popped, s3) = rooms_dict_pop room_id s2 in (None, s3)
          else (Some room, s2))"

text \<open>
  \<^verbatim>\<open>RoomStore._update_room_with_version\<close>: re-read the room under the id the record
  carries, and write only when the version read back is the expected one.
\<close>

definition update_room_with_version :: "Room \<Rightarrow> int \<Rightarrow> sys \<Rightarrow> bool \<times> sys" where
  "update_room_with_version room expected_version s0 =
     (let (current, s1) = get_room (id' room) s0 in
      case current of
        None \<Rightarrow> (False, s1)
      | Some cur \<Rightarrow>
          if version cur \<noteq> expected_version then (False, s1)
          else (True, rooms_dict_setitem (id' room) (room\<lparr>version := expected_version + 1\<rparr>) s1))"

text \<open>\<^verbatim>\<open>RoomStore.delete_room\<close>\<close>

definition delete_room :: "string \<Rightarrow> sys \<Rightarrow> bool \<times> sys" where
  "delete_room room_id s0 =
     (let (popped, s1) = rooms_dict_pop room_id s0 in
      case popped of Inr v \<Rightarrow> (True, s1) | Inl e \<Rightarrow> (False, s1))"

text \<open>
  \<^verbatim>\<open>RoomStore.add_participant\<close>. The first argument is what is left of
  \<^verbatim>\<open>range(MAX_RETRIES)\<close>; the loop body either raises, returns, or sleeps and goes on.
\<close>

fun add_participant_loop :: "nat list \<Rightarrow> string \<Rightarrow> string \<Rightarrow> sys \<Rightarrow> (error + unit) \<times> sys" where
  "add_participant_loop [] room_id encrypted_key s0 =
     (Inl (ConcurrentModificationError ''Failed to register after max retries, please try again''), s0)"
| "add_participant_loop (attempt # rest) room_id encrypted_key s0 =
     (let (found, s1) = get_room room_id s0 in
      case found of
        None \<Rightarrow> (Inl (ValueError (''Room '' @ room_id @ '' not found'')), s1)
      | Some room \<Rightarrow>
          if status room \<noteq> OPEN then (Inl (ValueError ''Registration is closed''), s1)
          else if encrypted_key \<in> set (participants room) then
            (Inl (ValueError ''Duplicate registration''), s1)
          else
            let expected_version = version room;
                room = room\<lparr>participants := participants room @ [encrypted_key]\<rparr>;
                (ok, s2) = update_room_with_version room expected_version s1
            in if ok then (Inr (), s2)
               else add_participant_loop rest room_id encrypted_key
                      (time_sleep (TrueDiv (RETRY_DELAY_MS * 2 ^ attempt) 1000) s2))"

definition add_participant :: "string \<Rightarrow> string \<Rightarrow> sys \<Rightarrow> (error + unit) \<times> sys" where
  "add_participant room_id encrypted_key s =
     add_participant_loop [0..<MAX_RETRIES] room_id encrypted_key s"

text \<open>\<^verbatim>\<open>RoomStore.set_sorted_keys\<close>: one read, the checks in the source's order, one write attempt.\<close>

definition set_sorted_keys :: "string \<Rightarrow> string list \<Rightarrow> sys \<Rightarrow> (error + unit) \<times> sys" where
  "set_sorted_keys room_id keys s0 =
     (let (found, s1) = get_room room_id s0 in
      case found of
        None \<Rightarrow> (Inl (ValueError (''Room '' @ room_id @ '' not found'')), s1)
      | Some room \<Rightarrow>
          if status room \<noteq> OPEN then (Inl (ValueError ''Room is not in OPEN state''), s1)
          else if length keys < 3 then (Inl (ValueError ''Minimum 3 participants required''), s1)
          else if length keys \<noteq> length (participants room) then
            (Inl (ValueError (''Sorted keys count ('' @ str_nat (length keys) @ '') must match ''
                              @ ''participants count ('' @ str_nat (length (participants room)) @ '')'')), s1)
          else if length keys \<noteq> card (set keys) then
            (Inl (ValueError ''Duplicate keys in sorted list''), s1)
          else
            let expected_version = version room;
                room = room\<lparr>sorted_keys := keys, status := SORTED\<rparr>;
                (ok, s2) = update_room_with_version room expected_version s1
            in if \<not> ok then
                 (Inl (ConcurrentModificationError ''Room was modified during sorting''), s2)
               else (Inr (), s2))"

text \<open>\<^verbatim>\<open>RoomStore.add_message\<close>\<close>

fun add_message_loop :: "nat list \<Rightarrow> string \<Rightarrow> string \<Rightarrow> sys \<Rightarrow> (error + unit) \<times> sys" where
  "add_message_loop [] room_id message_blob s0 =
     (Inl (ConcurrentModificationError ''Failed to post message after max retries, please try again''), s0)"
| "add_message_loop (attempt # rest) room_id message_blob s0 =
     (let (found, s1) = get_room room_id s0 in
      case found of
        None \<Rightarrow> (Inl (ValueError (''Room '' @ room_id @ '' not found'')), s1)
      | Some room \<Rightarrow>
          if status room = OPEN then (Inl (ValueError ''Cannot send messages before sorting''), s1)
          else if length (messages room) \<ge> length (sorted_keys room) then
            (Inl (ValueError ''All participants have already submitted their addresses''), s1)
          else
            let expected_version = version room;
                room = (if status room = SORTED then room\<lparr>status := MESSAGING\<rparr> else room);
                room = room\<lparr>messages := messages room @ [message_blob]\<rparr>;
                (ok, s2) = update_room_with_version room expected_version s1
            in if ok then (Inr (), s2)
               else add_message_loop rest room_id message_blob
                      (time_sleep (TrueDiv (RETRY_DELAY_MS * 2 ^ attempt) 1000) s2))"

definition add_message :: "string \<Rightarrow> string \<Rightarrow> sys \<Rightarrow> (error + unit) \<times> sys" where
  "add_message room_id message_blob s =
     add_message_loop [0..<MAX_RETRIES] room_id message_blob s"

section \<open>Routes (backend/api/routes.py)\<close>

text \<open>A route returns its response or raises \<^verbatim>\<open>HTTPException(status_code, detail)\<close>.\<close>

datatype 'a response = Returned 'a | HTTPException (status_code: nat) (detail: string)

text \<open>
  \<^verbatim>\<open>verify_chair\<close>. The first argument is the composition of \<^verbatim>\<open>str.encode\<close>,
  \<^verbatim>\<open>hashlib.sha256\<close> and \<^verbatim>\<open>hexdigest\<close>, which the program takes from Python's library.
  \<^verbatim>\<open>not chair_secret\<close> holds of \<^verbatim>\<open>None\<close> and of the empty string.
\<close>

definition verify_chair :: "(string \<Rightarrow> string) \<Rightarrow> Room \<Rightarrow> string option \<Rightarrow> bool" where
  "verify_chair sha256_hexdigest room chair_secret =
     (case chair_secret of
        None \<Rightarrow> False
      | Some secret \<Rightarrow>
          if secret = [] then False
          else (let hashed = sha256_hexdigest secret in hashed = chair_secret_hash room))"

text \<open>
  \<^verbatim>\<open>create_room\<close>: the first argument is the string of \<^verbatim>\<open>uuid.uuid4()\<close>; the fields the
  route leaves out take the defaults of \<^verbatim>\<open>Room\<close>.
\<close>

definition create_room_route :: "string \<Rightarrow> string \<Rightarrow> string \<Rightarrow> string \<Rightarrow> string \<Rightarrow> sys \<Rightarrow> string \<times> sys" where
  "create_room_route uuid4 req_P req_g sessionPublicKey chairSecretHash s0 =
     (let (now, s1) = datetime_utcnow s0;
          room = \<lparr>id' = uuid4, status = OPEN,
                  params = \<lparr>param_P = req_P, param_g = req_g\<rparr>,
                  session_public_key = sessionPublicKey,
                  chair_secret_hash = chairSecretHash,
                  participants = [], sorted_keys = [], messages = [],
                  created_at = now, version = 0\<rparr>
      in create_room room s1)"

text \<open>\<^verbatim>\<open>register\<close>: \<^verbatim>\<open>str(e)\<close> of an exception raised with one string is that string.\<close>

definition register :: "string \<Rightarrow> string \<Rightarrow> sys \<Rightarrow> bool response \<times> sys" where
  "register room_id encryptedKey s0 =
     (let (res, s1) = add_participant room_id encryptedKey s0 in
      case res of
        Inr u \<Rightarrow> (Returned True, s1)
      | Inl (ValueError e) \<Rightarrow> (HTTPException 400 e, s1)
      | Inl (ConcurrentModificationError e) \<Rightarrow> (HTTPException 409 e, s1))"

text \<open>\<^verbatim>\<open>get_participants\<close>\<close>

definition get_participants :: "string \<Rightarrow> sys \<Rightarrow> string list response \<times> sys" where
  "get_participants room_id s0 =
     (let (found, s1) = get_room room_id s0 in
      case found of
        None \<Rightarrow> (HTTPException 404 ''Room not found'', s1)
      | Some room \<Rightarrow> (Returned (participants room), s1))"

text \<open>\<^verbatim>\<open>sort_keys\<close>, with the value of the \<^verbatim>\<open>X-Chair-Secret\<close> header.\<close>

definition sort_keys :: "(string \<Rightarrow> string) \<Rightarrow> string \<Rightarrow> string list \<Rightarrow> string option \<Rightarrow> sys \<Rightarrow> bool response \<times> sys" where
  "sort_keys sha256_hexdigest room_id sortedKeys x_chair_secret s0 =
     (let (found, s1) = get_room room_id s0 in
      case found of
        None \<Rightarrow> (HTTPException 404 ''Room not found'', s1)
      | Some room \<Rightarrow>
          if \<not> verify_chair sha256_hexdigest room x_chair_secret then
            (HTTPException 403 ''Invalid chair secret'', s1)
          else
            let (res, s2) = set_sorted_keys room_id sortedKeys s1 in
            case res of
              Inr u \<Rightarrow> (Returned True, s2)
            | Inl (ValueError e) \<Rightarrow> (HTTPException 400 e, s2)
            | Inl (ConcurrentModificationError e) \<Rightarrow> (HTTPException 409 e, s2))"

text \<open>\<^verbatim>\<open>post_message\<close>\<close>

definition post_message :: "string \<Rightarrow> string \<Rightarrow> sys \<Rightarrow> bool response \<times> sys" where
  "post_message room_id blob s0 =
     (let (res, s1) = add_message room_id blob s0 in
      case res of
        Inr u \<Rightarrow> (Returned True, s1)
      | Inl (ValueError e) \<Rightarrow> (HTTPException 400 e, s1)
      | Inl (ConcurrentModificationError e) \<Rightarrow> (HTTPException 409 e, s1))"

text \<open>\<^verbatim>\<open>get_messages\<close>\<close>

definition get_messages :: "string \<Rightarrow> sys \<Rightarrow> string list response \<times> sys" where
  "get_messages room_id s0 =
     (let (found, s1) = get_room room_id s0 in
      case found of
        None \<Rightarrow> (HTTPException 404 ''Room not found'', s1)
      | Some room \<Rightarrow> (Returned (messages room), s1))"

text \<open>\<^verbatim>\<open>RoomResponse\<close>, and \<^verbatim>\<open>RoomStatus.value\<close>.\<close>

record RoomResponse =
  resp_id :: string
  resp_status :: string
  resp_params :: "(string \<times> string) list"
  resp_sessionPublicKey :: string
  resp_participantCount :: nat
  resp_sortedKeys :: "string list"
  resp_messages :: "string list"

fun RoomStatus_value :: "RoomStatus \<Rightarrow> string" where
  "RoomStatus_value OPEN = ''OPEN''"
| "RoomStatus_value SORTED = ''SORTED''"
| "RoomStatus_value MESSAGING = ''MESSAGING''"

text \<open>The route \<^verbatim>\<open>get_room\<close>.\<close>

definition get_room_route :: "string \<Rightarrow> sys \<Rightarrow> RoomResponse response \<times> sys" where
  "get_room_route room_id s0 =
     (let (found, s1) = get_room room_id s0 in
      case found of
        None \<Rightarrow> (HTTPException 404 ''Room not found'', s1)
      | Some room \<Rightarrow>
          (Returned \<lparr>resp_id = id' room,
                     resp_status = RoomStatus_value (status room),
                     resp_params = [(''P'', param_P (params room)), (''g'', param_g (params room))],
                     resp_sessionPublicKey = session_public_key room,
                     resp_participantCount = length (participants room),
                     resp_sortedKeys = sorted_keys room,
                     resp_messages = messages room\<rparr>, s1))"

text \<open>
  The router: the requests the service answers, each with the arguments of its route, and
  the state in which the route leaves the system. \<^verbatim>\<open>CreateRoom\<close> carries the identifier
  that \<^verbatim>\<open>uuid.uuid4()\<close> draws.
\<close>

datatype request =
    CreateRoom string string string string string
  | GetRoom string
  | Register string string
  | GetParticipants string
  | SortKeys string "string list" "string option"
  | PostMessage string string
  | GetMessages string

fun serve :: "(string \<Rightarrow> string) \<Rightarrow> request \<Rightarrow> sys \<Rightarrow> sys" where
  "serve H (CreateRoom uuid4 req_P req_g pk h) s = snd (create_room_route uuid4 req_P req_g pk h s)"
| "serve H (GetRoom room_id) s = snd (get_room_route room_id s)"
| "serve H (Register room_id k) s = snd (register room_id k s)"
| "serve H (GetParticipants room_id) s = snd (get_participants room_id s)"
| "serve H (SortKeys room_id ks secret) s = snd (sort_keys H room_id ks secret s)"
| "serve H (PostMessage room_id blob) s = snd (post_message room_id blob s)"
| "serve H (GetMessages room_id) s = snd (get_messages room_id s)"

section \<open>Notions used to state the properties\<close>

text \<open>A room is expired at a time when \<^verbatim>\<open>get_room\<close>'s comparison holds of it.\<close>

abbreviation expired :: "int \<Rightarrow> Room \<Rightarrow> bool" where
  "expired now room \<equiv> now - created_at room > timedelta_seconds ROOM_TTL_SECONDS"

text \<open>The system with one key removed, with one record written, and at another time.\<close>

definition evict :: "string \<Rightarrow> sys \<Rightarrow> sys" where
  "evict key s = s\<lparr>world := (world s)\<lparr>rooms_dict := (rooms_dict (world s))(key := None)\<rparr>\<rparr>"

definition store :: "string \<Rightarrow> Room \<Rightarrow> sys \<Rightarrow> sys" where
  "store key v s = s\<lparr>world := (world s)\<lparr>rooms_dict := (rooms_dict (world s))(key \<mapsto> v)\<rparr>\<rparr>"

definition set_clock :: "int \<Rightarrow> sys \<Rightarrow> sys" where
  "set_clock t s = s\<lparr>world := (world s)\<lparr>utcnow := t\<rparr>\<rparr>"

text \<open>
  A property of stored records holds of a world when it holds of every record under its
  key; a step of the other clients keeps it when it leads from a world where it holds to
  another one.
\<close>

definition rooms_ok :: "(string \<Rightarrow> Room \<Rightarrow> bool) \<Rightarrow> world \<Rightarrow> bool" where
  "rooms_ok I w = (\<forall>k r. rooms_dict w k = Some r \<longrightarrow> I k r)"

definition keeps :: "(string \<Rightarrow> Room \<Rightarrow> bool) \<Rightarrow> (world \<Rightarrow> world) \<Rightarrow> bool" where
  "keeps I f = (\<forall>w. rooms_ok I w \<longrightarrow> rooms_ok I (f w))"

definition sys_ok :: "(string \<Rightarrow> Room \<Rightarrow> bool) \<Rightarrow> sys \<Rightarrow> bool" where
  "sys_ok I s = (rooms_ok I (world s) \<and> list_all (keeps I) (pending s))"

text \<open>
  The states the service reaches: it boots with an empty dictionary, serves one request
  after another, and between two accesses of the request being served the other clients
  take steps, each of them allowed by \<open>R\<close>.
\<close>

inductive reachable :: "(string \<Rightarrow> string) \<Rightarrow> ((world \<Rightarrow> world) \<Rightarrow> bool) \<Rightarrow> sys \<Rightarrow> bool"
  for H :: "string \<Rightarrow> string" and R :: "(world \<Rightarrow> world) \<Rightarrow> bool" where
  boot: "reachable H R \<lparr>world = \<lparr>rooms_dict = Map.empty, utcnow = t\<rparr>, pending = [], slept = []\<rparr>"
| request: "reachable H R s \<Longrightarrow> reachable H R (serve H req s)"
| others: "reachable H R s \<Longrightarrow> list_all R fs \<Longrightarrow> reachable H R (s\<lparr>pending := pending s @ fs\<rparr>)"

text \<open>
  What a client that writes nothing can do to the system: let the others run, sleep, and
  pop a key as \<^verbatim>\<open>get_room\<close> does, that is, after it has found under that key a record that
  is expired at the clock it reads next, with one step of the others before the pop.
\<close>

inductive no_write :: "sys \<Rightarrow> sys \<Rightarrow> bool" where
  same: "no_write s s"
| env: "no_write s s' \<Longrightarrow> no_write s (yield s')"
| pop: "no_write s s' \<Longrightarrow> rooms_dict (world s') key = Some r \<Longrightarrow>
        expired (utcnow (world (yield s'))) r \<Longrightarrow> no_write s (evict key (yield (yield s')))"
| sleep: "no_write s s' \<Longrightarrow> no_write s (time_sleep d s')"

text \<open>The two properties of stored records of the specification's data model.\<close>

definition distinct_participants :: "string \<Rightarrow> Room \<Rightarrow> bool" where
  "distinct_participants key room = distinct (participants room)"

definition messages_only_when_messaging :: "string \<Rightarrow> Room \<Rightarrow> bool" where
  "messages_only_when_messaging key room = (status room \<noteq> MESSAGING \<longrightarrow> messages room = [])"

text \<open>Example states: nothing stored, and one idle client.\<close>

definition sys_empty :: sys where
  "sys_empty = \<lparr>world = \<lparr>rooms_dict = Map.empty, utcnow = 1000\<rparr>, pending = [], slept = []\<rparr>"

text \<open>The room that the route \<^verbatim>\<open>create_room\<close> stores at time 1000 under the id \<open>r1\<close>.\<close>

definition room_new :: Room where
  "room_new = \<lparr>id' = ''r1'', status = OPEN, params = \<lparr>param_P = ''23'', param_g = ''5''\<rparr>,
     session_public_key = ''pk'', chair_secret_hash = ''h'', participants = [],
     sorted_keys = [], messages = [], created_at = 1000, version = 0\<rparr>"

definition sys_new :: sys where
  "sys_new = \<lparr>world = \<lparr>rooms_dict = [''r1'' \<mapsto> room_new], utcnow = 1000\<rparr>, pending = [], slept = []\<rparr>"

text \<open>The new room read more than thirty days after its creation.\<close>

definition sys_old :: sys where
  "sys_old = set_clock 2592001001000 sys_new"

text \<open>A room in which all three participants have posted their message.\<close>

definition room_full :: Room where
  "room_full = room_new\<lparr>status := MESSAGING, participants := [''e1'', ''e2'', ''e3''],
      sorted_keys := [''k1'', ''k2'', ''k3''], messages := [''m1'', ''m2'', ''m3''], version := 7\<rparr>"

definition sys_full :: sys where
  "sys_full = store ''r1'' room_full sys_new"

text \<open>
  The scenario of the specification, one client at a time: the new room after one and after
  three registrations, after the chair has uploaded three sorted keys, and after the first
  message. In the examples the hash of every secret is the stored one.
\<close>

definition sys_one :: sys where
  "sys_one = store ''r1'' (room_new\<lparr>participants := [''key''], version := 1\<rparr>) sys_new"

definition room_three :: Room where
  "room_three = room_new\<lparr>participants := [''key'', ''key2'', ''key3''], version := 3\<rparr>"

definition room_sorted :: Room where
  "room_sorted = room_three\<lparr>sorted_keys := [''k1'', ''k2'', ''k3''], status := SORTED, version := 4\<rparr>"

definition room_messaging :: Room where
  "room_messaging = room_sorted\<lparr>status := MESSAGING, messages := [''m1''], version := 5\<rparr>"

definition sys_three :: sys where
  "sys_three = store ''r1'' room_three sys_new"

definition sys_sorted :: sys where
  "sys_sorted = store ''r1'' room_sorted sys_new"

definition sys_messaging :: sys where
  "sys_messaging = store ''r1'' room_messaging sys_new"

definition example_hash :: "string \<Rightarrow> string" where
  "example_hash secret = ''h''"

text \<open>
  What a client that runs alone and writes nothing leaves behind: nobody else has stepped
  in, the clock has not moved, and every key holds what it held before, or nothing when the
  record it held was expired.
\<close>

definition calm :: "sys \<Rightarrow> sys \<Rightarrow> bool" where
  "calm s s' = (pending s' = [] \<and> utcnow (world s') = utcnow (world s)
     \<and> (\<forall>key. rooms_dict (world s') key = rooms_dict (world s) key
            \<or> (rooms_dict (world s') key = None
                \<and> (\<exists>r. rooms_dict (world s) key = Some r \<and> expired (utcnow (world s)) r))))"

text \<open>
  The delay before the retry that follows an attempt, in seconds: the float of
  \<^verbatim>\<open>RETRY_DELAY_MS * (2 ** attempt) / 1000\<close>.
\<close>

definition backoff :: "nat \<Rightarrow> py_float" where
  "backoff attempt = TrueDiv (RETRY_DELAY_MS * 2 ^ attempt) 1000"

text \<open>
  A race: while the chair's client of the example run is between its read of the room with
  three participants and its version check, another client registers a fourth key.
\<close>

definition room_four :: Room where
  "room_four = room_three\<lparr>participants := [''key'', ''key2'', ''key3'', ''key4''], version := 4\<rparr>"

definition other_registers :: "world \<Rightarrow> world" where
  "other_registers w = w\<lparr>rooms_dict := (rooms_dict w)(''r1'' \<mapsto> room_four)\<rparr>"

definition sys_race :: sys where
  "sys_race = sys_three\<lparr>pending := [\<lambda>w. w, \<lambda>w. w, other_registers]\<rparr>"

definition sys_five :: sys where
  "sys_five = time_sleep (TrueDiv 50 1000) (store ''r1''
        (room_four\<lparr>participants := [''key'', ''key2'', ''key3'', ''key4'', ''key5''], version := 5\<rparr>) sys_new)"

text \<open>
  A lost update. The client of the example run registers \<open>keyA\<close> in the room with three
  participants; after its version check and before its write, two other clients register
  \<open>keyB\<close> and \<open>keyC\<close>, each by a complete run of \<^verbatim>\<open>add_participant\<close>. \<open>sys_read\<close> and
  \<open>sys_checked\<close> are the states after the first client's read and after its version check.
\<close>

definition other_client_registers :: "string \<Rightarrow> string \<Rightarrow> world \<Rightarrow> world" where
  "other_client_registers room_id k w =
     world (snd (add_participant room_id k \<lparr>world = w, pending = [], slept = []\<rparr>))"

definition room_others :: Room where
  "room_others = room_three\<lparr>participants := [''key'', ''key2'', ''key3'', ''keyB'', ''keyC''], version := 5\<rparr>"

definition room_lost :: Room where
  "room_lost = room_three\<lparr>participants := [''key'', ''key2'', ''key3'', ''keyA''], version := 4\<rparr>"

definition sys_lost_update :: sys where
  "sys_lost_update = sys_three\<lparr>pending := [\<lambda>w. w, \<lambda>w. w, \<lambda>w. w, \<lambda>w. w,
      \<lambda>w. other_client_registers ''r1'' ''keyC'' (other_client_registers ''r1'' ''keyB'' w)]\<rparr>"

definition sys_read :: sys where
  "sys_read = sys_three\<lparr>pending := [\<lambda>w. w, \<lambda>w. w,
      \<lambda>w. other_client_registers ''r1'' ''keyC'' (other_client_registers ''r1'' ''keyB'' w)]\<rparr>"

definition sys_checked :: sys where
  "sys_checked = sys_three\<lparr>pending :=
      [\<lambda>w. other_client_registers ''r1'' ''keyC'' (other_client_registers ''r1'' ''keyB'' w)]\<rparr>"

text \<open>
  A room that expires in the middle of an operation: the client reads the room alive, and
  before its version check the clock passes the end of the retention window.
\<close>

definition clock_passes :: "world \<Rightarrow> world" where
  "clock_passes w = w\<lparr>utcnow := 2592001001000\<rparr>"

definition sys_expiring :: sys where
  "sys_expiring = sys_new\<lparr>pending := [\<lambda>w. w, \<lambda>w. w, clock_passes]\<rparr>"

definition sys_three_expiring :: sys where
  "sys_three_expiring = sys_three\<lparr>pending := [\<lambda>w. w, \<lambda>w. w, clock_passes]\<rparr>"

text \<open>The executable reading of ``every attempt of the loop loses its race'': each attempt reads a
  room that passes the checks and its versioned write returns \<^verbatim>\<open>False\<close>.\<close>

fun register_attempts_lost :: "string \<Rightarrow> string \<Rightarrow> nat list \<Rightarrow> sys \<Rightarrow> bool" where
  "register_attempts_lost room_id k [] s = True"
| "register_attempts_lost room_id k (attempt # rest) s =
     (case get_room room_id s of
        (None, s1) \<Rightarrow> False
      | (Some room, s1) \<Rightarrow>
          status room = OPEN \<and> k \<notin> set (participants room) \<and>
          (case update_room_with_version (room\<lparr>participants := participants room @ [k]\<rparr>)
                  (version room) s1 of
             (ok, s2) \<Rightarrow>
               \<not> ok \<and> register_attempts_lost room_id k rest (time_sleep (backoff attempt) s2)))"

fun message_attempts_lost :: "string \<Rightarrow> string \<Rightarrow> nat list \<Rightarrow> sys \<Rightarrow> bool" where
  "message_attempts_lost room_id blob [] s = True"
| "message_attempts_lost room_id blob (attempt # rest) s =
     (case get_room room_id s of
        (None, s1) \<Rightarrow> False
      | (Some room, s1) \<Rightarrow>
          status room \<noteq> OPEN \<and> length (messages room) < length (sorted_keys room) \<and>
          (case update_room_with_version
                  ((if status room = SORTED then room\<lparr>status := MESSAGING\<rparr> else room)
                     \<lparr>messages := messages room @ [blob]\<rparr>)
                  (version room) s1 of
             (ok, s2) \<Rightarrow>
               \<not> ok \<and> message_attempts_lost room_id blob rest (time_sleep (backoff attempt) s2)))"

definition other_client_posts :: "string \<Rightarrow> string \<Rightarrow> world \<Rightarrow> world" where
  "other_client_posts room_id blob w =
     world (snd (add_message room_id blob \<lparr>world = w, pending = [], slept = []\<rparr>))"

definition room_seven :: Room where
  "room_seven = room_new\<lparr>status := SORTED,
      participants := [''e1'', ''e2'', ''e3'', ''e4'', ''e5'', ''e6'', ''e7''],
      sorted_keys := [''k1'', ''k2'', ''k3'', ''k4'', ''k5'', ''k6'', ''k7''], version := 8\<rparr>"

definition sys_busy_register :: sys where
  "sys_busy_register = sys_three\<lparr>pending :=
     [\<lambda>w. w, \<lambda>w. w, other_client_registers ''r1'' ''o1'', \<lambda>w. w,
      \<lambda>w. w, \<lambda>w. w, other_client_registers ''r1'' ''o2'', \<lambda>w. w,
      \<lambda>w. w, \<lambda>w. w, other_client_registers ''r1'' ''o3'', \<lambda>w. w,
      \<lambda>w. w, \<lambda>w. w, other_client_registers ''r1'' ''o4'', \<lambda>w. w,
      \<lambda>w. w, \<lambda>w. w, other_client_registers ''r1'' ''o5'', \<lambda>w. w]\<rparr>"

definition sys_busy_message :: sys where
  "sys_busy_message = (store ''r1'' room_seven sys_new)\<lparr>pending :=
     [\<lambda>w. w, \<lambda>w. w, other_client_posts ''r1'' ''n1'', \<lambda>w. w,
      \<lambda>w. w, \<lambda>w. w, other_client_posts ''r1'' ''n2'', \<lambda>w. w,
      \<lambda>w. w, \<lambda>w. w, other_client_posts ''r1'' ''n3'', \<lambda>w. w,
      \<lambda>w. w, \<lambda>w. w, other_client_posts ''r1'' ''n4'', \<lambda>w. w,
      \<lambda>w. w, \<lambda>w. w, other_client_posts ''r1'' ''n5'', \<lambda>w. w]\<rparr>"

definition sys_message_race :: sys where
  "sys_message_race = sys_sorted\<lparr>pending := [\<lambda>w. w, \<lambda>w. w, other_client_posts ''r1'' ''m1'']\<rparr>"

section \<open>Properties\<close>

subsection \<open>Single accesses\<close>

lemma yield_idle: "pending s = [] \<Longrightarrow> yield s = s"
  by (simp add: yield_def)

lemma slept_yield: "slept (yield s) = slept s"
  by (simp add: yield_def split: list.splits)

lemma rooms_dict_setitem_store: "rooms_dict_setitem k v s = store k v (yield s)"
  by (simp add: rooms_dict_setitem_def store_def Let_def)

lemma rooms_dict_pop_evict: "snd (rooms_dict_pop k s) = evict k (yield s)"
  by (auto simp: rooms_dict_pop_def evict_def Let_def fun_upd_idem split: option.splits)

lemma sys_ok_yield: "sys_ok I s \<Longrightarrow> sys_ok I (yield s)"
  by (auto simp: yield_def sys_ok_def keeps_def split: list.splits)

lemma sys_ok_evict: "sys_ok I s \<Longrightarrow> sys_ok I (evict k s)"
  by (auto simp: sys_ok_def rooms_ok_def evict_def)

lemma sys_ok_store: "sys_ok I s \<Longrightarrow> I k r \<Longrightarrow> sys_ok I (store k r s)"
  by (auto simp: sys_ok_def rooms_ok_def store_def)

lemma sys_ok_sleep: "sys_ok I s \<Longrightarrow> sys_ok I (time_sleep d s)"
  by (auto simp: sys_ok_def time_sleep_def)

lemma sys_ok_lookup: "sys_ok I s \<Longrightarrow> rooms_dict (world s) k = Some r \<Longrightarrow> I k r"
  by (auto simp: sys_ok_def rooms_ok_def)

subsection \<open>Reading and the version check, whatever the other clients do\<close>

lemma get_room_unfold:
  "get_room rid s =
     (case rooms_dict (world (yield s)) rid of
        None \<Rightarrow> (None, yield s)
      | Some r \<Rightarrow>
          if expired (utcnow (world (yield (yield s)))) r
          then (None, evict rid (yield (yield (yield s))))
          else (Some r, yield (yield s)))"
  by (simp add: get_room_def rooms_dict_get_def datetime_utcnow_def
        rooms_dict_pop_evict[symmetric] split_beta Let_def split: option.split)

lemma get_room_cases:
  "get_room rid s = (x, s') \<Longrightarrow>
     (x = None \<and> s' = yield s \<and> rooms_dict (world (yield s)) rid = None)
   \<or> (\<exists>r. rooms_dict (world (yield s)) rid = Some r \<and>
        (if expired (utcnow (world (yield (yield s)))) r
         then x = None \<and> s' = evict rid (yield (yield (yield s)))
         else x = Some r \<and> s' = yield (yield s)))"
  unfolding get_room_unfold by (cases "rooms_dict (world (yield s)) rid") (auto split: if_splits)

lemma get_room_ok:
  assumes "sys_ok I s" "get_room rid s = (x, s')"
  shows "sys_ok I s' \<and> (\<forall>r. x = Some r \<longrightarrow> I rid r)"
  using get_room_cases[OF assms(2)] assms(1)
  by (auto simp: sys_ok_yield sys_ok_evict split: if_splits dest: sys_ok_lookup[OF sys_ok_yield])

lemma slept_get_room: "get_room rid s = (x, s') \<Longrightarrow> slept s' = slept s"
  by (drule get_room_cases) (auto simp: evict_def slept_yield split: if_splits)

lemma update_cases:
  "update_room_with_version room ev s = (ok, s') \<Longrightarrow>
    (\<exists>cur s1. get_room (id' room) s = (cur, s1) \<and>
       (if ok then (\<exists>c. cur = Some c \<and> version c = ev)
                 \<and> s' = store (id' room) (room\<lparr>version := ev + 1\<rparr>) (yield s1)
        else (cur = None \<or> (\<exists>c. cur = Some c \<and> version c \<noteq> ev)) \<and> s' = s1))"
  by (auto simp: update_room_with_version_def rooms_dict_setitem_store Let_def
      split: option.splits prod.splits if_splits)

lemma update_ok:
  assumes "sys_ok I s" "update_room_with_version room ev s = (ok, s')"
     "I (id' room) (room\<lparr>version := ev + 1\<rparr>)"
  shows "sys_ok I s'"
  using update_cases[OF assms(2)] assms(1,3)
  by (auto split: if_splits dest: get_room_ok intro!: sys_ok_store sys_ok_yield)

lemma slept_update: "update_room_with_version room ev s = (ok, s') \<Longrightarrow> slept s' = slept s"
  by (drule update_cases) (auto simp: store_def slept_yield split: if_splits dest: slept_get_room)

subsection \<open>A client that runs alone\<close>

lemma get_room_absent:
  "pending s = [] \<Longrightarrow> rooms_dict (world s) rid = None \<Longrightarrow> get_room rid s = (None, s)"
  by (simp add: get_room_def rooms_dict_get_def yield_idle)

lemma get_room_live:
  "pending s = [] \<Longrightarrow> rooms_dict (world s) rid = Some r \<Longrightarrow> \<not> expired (utcnow (world s)) r
   \<Longrightarrow> get_room rid s = (Some r, s)"
  by (simp add: get_room_def rooms_dict_get_def datetime_utcnow_def yield_idle)

lemma get_room_expired:
  "pending s = [] \<Longrightarrow> rooms_dict (world s) rid = Some r \<Longrightarrow> expired (utcnow (world s)) r
   \<Longrightarrow> get_room rid s = (None, evict rid s)"
  by (simp add: get_room_def rooms_dict_get_def datetime_utcnow_def rooms_dict_pop_def
        yield_idle evict_def)

lemma update_live:
  "pending s = [] \<Longrightarrow> rooms_dict (world s) (id' room) = Some cur \<Longrightarrow>
   \<not> expired (utcnow (world s)) cur \<Longrightarrow> version cur = ev \<Longrightarrow>
   update_room_with_version room ev s = (True, store (id' room) (room\<lparr>version := ev + 1\<rparr>) s)"
  by (simp add: update_room_with_version_def get_room_live rooms_dict_setitem_store yield_idle)

lemma upt_MAX_RETRIES: "[0..<MAX_RETRIES] = [0, 1, 2, 3, 4]"
  by (simp add: MAX_RETRIES_def upt_rec)

lemma evict_simps:
  "pending (evict k s) = pending s" "slept (evict k s) = slept s"
  "utcnow (world (evict k s)) = utcnow (world s)"
  "rooms_dict (world (evict k s)) = (rooms_dict (world s))(k := None)"
  by (simp_all add: evict_def)

lemma store_simps:
  "pending (store k v s) = pending s" "slept (store k v s) = slept s"
  "utcnow (world (store k v s)) = utcnow (world s)"
  "rooms_dict (world (store k v s)) = (rooms_dict (world s))(k \<mapsto> v)"
  by (simp_all add: store_def)

lemma set_clock_simps:
  "pending (set_clock t s) = pending s" "slept (set_clock t s) = slept s"
  "utcnow (world (set_clock t s)) = t"
  "rooms_dict (world (set_clock t s)) = rooms_dict (world s)"
  by (simp_all add: set_clock_def)

subsection \<open>The operations keep what their writes keep\<close>

lemma add_participant_loop_ok:
  assumes reg: "\<And>r. I rid r \<Longrightarrow> status r = OPEN \<Longrightarrow> key \<notin> set (participants r) \<Longrightarrow>
        I (id' r) (r\<lparr>participants := participants r @ [key], version := version r + 1\<rparr>)"
  shows "sys_ok I s \<Longrightarrow> sys_ok I (snd (add_participant_loop atts rid key s))"
proof (induction atts arbitrary: s)
  case Nil
  then show ?case by simp
next
  case (Cons a atts)
  obtain x s1 where g: "get_room rid s = (x, s1)" by (cases "get_room rid s")
  from get_room_ok[OF Cons.prems g] have s1: "sys_ok I s1" and x: "\<And>r. x = Some r \<Longrightarrow> I rid r"
    by auto
  show ?case
  proof (cases x)
    case None
    with g s1 show ?thesis by simp
  next
    case (Some r)
    let ?room = "r\<lparr>participants := participants r @ [key]\<rparr>"
    obtain ok s2 where u: "update_room_with_version ?room (version r) s1 = (ok, s2)"
      by (cases "update_room_with_version ?room (version r) s1")
    show ?thesis
    proof (cases "status r = OPEN \<and> key \<notin> set (participants r)")
      case True
      with reg[OF x[OF Some]] have "I (id' ?room) (?room\<lparr>version := version r + 1\<rparr>)" by simp
      from update_ok[OF s1 u this] have "sys_ok I s2" .
      then show ?thesis using g Some True u Cons.IH[OF sys_ok_sleep] by (simp add: Let_def)
    next
      case False
      then show ?thesis using g Some s1 by auto
    qed
  qed
qed

lemma add_message_loop_ok:
  assumes msg: "\<And>r. I rid r \<Longrightarrow> status r \<noteq> OPEN \<Longrightarrow> length (messages r) < length (sorted_keys r) \<Longrightarrow>
        I (id' r) (r\<lparr>status := MESSAGING, messages := messages r @ [blob], version := version r + 1\<rparr>)"
  shows "sys_ok I s \<Longrightarrow> sys_ok I (snd (add_message_loop atts rid blob s))"
proof (induction atts arbitrary: s)
  case Nil
  then show ?case by simp
next
  case (Cons a atts)
  obtain x s1 where g: "get_room rid s = (x, s1)" by (cases "get_room rid s")
  from get_room_ok[OF Cons.prems g] have s1: "sys_ok I s1" and x: "\<And>r. x = Some r \<Longrightarrow> I rid r"
    by auto
  show ?case
  proof (cases x)
    case None
    with g s1 show ?thesis by simp
  next
    case (Some r)
    let ?room = "(if status r = SORTED then r\<lparr>status := MESSAGING\<rparr> else r)\<lparr>messages := messages r @ [blob]\<rparr>"
    obtain ok s2 where u: "update_room_with_version ?room (version r) s1 = (ok, s2)"
      by (cases "update_room_with_version ?room (version r) s1")
    show ?thesis
    proof (cases "status r \<noteq> OPEN \<and> length (messages r) < length (sorted_keys r)")
      case True
      then have eq: "?room = r\<lparr>status := MESSAGING, messages := messages r @ [blob]\<rparr>"
        by (cases "status r") auto
      from msg[OF x[OF Some]] True have "I (id' ?room) (?room\<lparr>version := version r + 1\<rparr>)"
        unfolding eq by simp
      from update_ok[OF s1 u this] have "sys_ok I s2" .
      then show ?thesis using g Some True u Cons.IH[OF sys_ok_sleep]
        by (cases "status r = SORTED") (simp_all add: Let_def)
    next
      case False
      then show ?thesis using g Some s1 by auto
    qed
  qed
qed

lemma set_sorted_keys_ok:
  assumes srt: "\<And>r. I rid r \<Longrightarrow> status r = OPEN \<Longrightarrow> length ks = length (participants r) \<Longrightarrow>
        3 \<le> length ks \<Longrightarrow> distinct ks \<Longrightarrow>
        I (id' r) (r\<lparr>sorted_keys := ks, status := SORTED, version := version r + 1\<rparr>)"
    and ok: "sys_ok I s"
  shows "sys_ok I (snd (set_sorted_keys rid ks s))"
proof -
  obtain x s1 where g: "get_room rid s = (x, s1)" by (cases "get_room rid s")
  from get_room_ok[OF ok g] have s1: "sys_ok I s1" and x: "\<And>r. x = Some r \<Longrightarrow> I rid r"
    by auto
  show ?thesis
  proof (cases x)
    case None
    with g s1 show ?thesis by (simp add: set_sorted_keys_def)
  next
    case (Some r)
    let ?room = "r\<lparr>sorted_keys := ks, status := SORTED\<rparr>"
    obtain b s2 where u: "update_room_with_version ?room (version r) s1 = (b, s2)"
      by (cases "update_room_with_version ?room (version r) s1")
    show ?thesis
    proof (cases "status r = OPEN \<and> 3 \<le> length ks \<and> length ks = length (participants r)
                   \<and> length ks = card (set ks)")
      case True
      then have "distinct ks" by (simp add: card_distinct)
      with srt[OF x[OF Some]] True have "I (id' ?room) (?room\<lparr>version := version r + 1\<rparr>)" by simp
      from update_ok[OF s1 u this] have "sys_ok I s2" .
      then show ?thesis using g Some True u by (simp add: set_sorted_keys_def Let_def)
    next
      case False
      then show ?thesis using g Some s1 by (auto simp: set_sorted_keys_def)
    qed
  qed
qed


lemma loop_heads:
  "add_participant room_id k s = add_participant_loop (0 # [1, 2, 3, 4]) room_id k s"
  "add_message room_id b s = add_message_loop (0 # [1, 2, 3, 4]) room_id b s"
  by (simp_all add: add_participant_def add_message_def upt_MAX_RETRIES)

subsection \<open>Reachable states\<close>

lemma create_room_route_ok:
  assumes fresh: "\<And>t. I u \<lparr>id' = u, status = OPEN, params = \<lparr>param_P = p, param_g = g\<rparr>,
        session_public_key = pk, chair_secret_hash = h, participants = [], sorted_keys = [],
        messages = [], created_at = t, version = 0\<rparr>"
    and ok: "sys_ok I s"
  shows "sys_ok I (snd (create_room_route u p g pk h s))"
  using ok fresh
  by (simp add: create_room_route_def datetime_utcnow_def create_room_def Let_def
        rooms_dict_setitem_store sys_ok_store sys_ok_yield)

lemma get_room_snd_ok: "sys_ok I s \<Longrightarrow> sys_ok I (snd (get_room rid s))"
  using get_room_ok[of I s rid] by (cases "get_room rid s") auto

lemma serve_ok:
  assumes fresh: "\<And>u p g pk h t. I u \<lparr>id' = u, status = OPEN, params = \<lparr>param_P = p, param_g = g\<rparr>,
        session_public_key = pk, chair_secret_hash = h, participants = [], sorted_keys = [],
        messages = [], created_at = t, version = 0\<rparr>"
    and reg: "\<And>rid r key. I rid r \<Longrightarrow> status r = OPEN \<Longrightarrow> key \<notin> set (participants r) \<Longrightarrow>
        I (id' r) (r\<lparr>participants := participants r @ [key], version := version r + 1\<rparr>)"
    and srt: "\<And>rid r ks. I rid r \<Longrightarrow> status r = OPEN \<Longrightarrow> length ks = length (participants r) \<Longrightarrow>
        3 \<le> length ks \<Longrightarrow> distinct ks \<Longrightarrow>
        I (id' r) (r\<lparr>sorted_keys := ks, status := SORTED, version := version r + 1\<rparr>)"
    and msg: "\<And>rid r blob. I rid r \<Longrightarrow> status r \<noteq> OPEN \<Longrightarrow>
        length (messages r) < length (sorted_keys r) \<Longrightarrow>
        I (id' r) (r\<lparr>status := MESSAGING, messages := messages r @ [blob], version := version r + 1\<rparr>)"
    and ok: "sys_ok I s"
  shows "sys_ok I (serve H req s)"
proof (cases req)
  case (CreateRoom u p g pk h)
  then show ?thesis using create_room_route_ok[of I u p g pk h s] fresh ok by simp
next
  case (GetRoom rid)
  then show ?thesis using get_room_snd_ok[OF ok, of rid]
    by (simp add: get_room_route_def split_beta split: option.split)
next
  case (Register rid k)
  have "sys_ok I (snd (add_participant rid k s))"
    unfolding add_participant_def by (rule add_participant_loop_ok[OF reg ok])
  then show ?thesis using Register
    by (simp add: register_def split_beta split: sum.split error.split)
next
  case (GetParticipants rid)
  then show ?thesis using get_room_snd_ok[OF ok, of rid]
    by (simp add: get_participants_def split_beta split: option.split)
next
  case (SortKeys rid ks secret)
  have "sys_ok I (snd (set_sorted_keys rid ks (snd (get_room rid s))))"
    by (rule set_sorted_keys_ok[OF srt get_room_snd_ok[OF ok]])
  then show ?thesis using SortKeys get_room_snd_ok[OF ok, of rid]
    by (simp add: sort_keys_def split_beta split: option.split sum.split error.split)
next
  case (PostMessage rid blob)
  have "sys_ok I (snd (add_message rid blob s))"
    unfolding add_message_def by (rule add_message_loop_ok[OF msg ok])
  then show ?thesis using PostMessage
    by (simp add: post_message_def split_beta split: sum.split error.split)
next
  case (GetMessages rid)
  then show ?thesis using get_room_snd_ok[OF ok, of rid]
    by (simp add: get_messages_def split_beta split: option.split)
qed

lemma reachable_ok:
  assumes fresh: "\<And>u p g pk h t. I u \<lparr>id' = u, status = OPEN, params = \<lparr>param_P = p, param_g = g\<rparr>,
        session_public_key = pk, chair_secret_hash = h, participants = [], sorted_keys = [],
        messages = [], created_at = t, version = 0\<rparr>"
    and reg: "\<And>rid r key. I rid r \<Longrightarrow> status r = OPEN \<Longrightarrow> key \<notin> set (participants r) \<Longrightarrow>
        I (id' r) (r\<lparr>participants := participants r @ [key], version := version r + 1\<rparr>)"
    and srt: "\<And>rid r ks. I rid r \<Longrightarrow> status r = OPEN \<Longrightarrow> length ks = length (participants r) \<Longrightarrow>
        3 \<le> length ks \<Longrightarrow> distinct ks \<Longrightarrow>
        I (id' r) (r\<lparr>sorted_keys := ks, status := SORTED, version := version r + 1\<rparr>)"
    and msg: "\<And>rid r blob. I rid r \<Longrightarrow> status r \<noteq> OPEN \<Longrightarrow>
        length (messages r) < length (sorted_keys r) \<Longrightarrow>
        I (id' r) (r\<lparr>status := MESSAGING, messages := messages r @ [blob], version := version r + 1\<rparr>)"
  shows "reachable H (keeps I) s \<Longrightarrow> sys_ok I s"
proof (induction rule: reachable.induct)
  case (boot t)
  then show ?case by (simp add: sys_ok_def rooms_ok_def)
next
  case (request s req)
  then show ?case by (intro serve_ok[OF fresh reg srt msg])
next
  case (others s fs)
  then show ?case by (simp add: sys_ok_def)
qed

text \<open>Every room the service stores is stored under its own id, if the other clients do so.\<close>

lemma reachable_own_id:
  assumes "reachable H (keeps (\<lambda>key room. id' room = key)) s" "rooms_dict (world s) key = Some room"
  shows "id' room = key"
proof -
  have "sys_ok (\<lambda>key room. id' room = key) s"
    by (rule reachable_ok[OF _ _ _ _ assms(1)]) simp_all
  from sys_ok_lookup[OF this assms(2)] show ?thesis .
qed

subsection \<open>The operations of a client that runs alone on a live room\<close>

lemma add_participant_alone:
  assumes "pending s = []" "rooms_dict (world s) room_id = Some room" "id' room = room_id"
    "\<not> expired (utcnow (world s)) room" "status room = OPEN" "k \<notin> set (participants room)"
  shows "add_participant room_id k s =
           (Inr (), store room_id (room\<lparr>participants := participants room @ [k],
                                       version := version room + 1\<rparr>) s)"
  using assms by (simp add: loop_heads get_room_live update_live)

lemma set_sorted_keys_alone:
  assumes "pending s = []" "rooms_dict (world s) room_id = Some room" "id' room = room_id"
    "\<not> expired (utcnow (world s)) room" "status room = OPEN" "3 \<le> length ks"
    "length ks = length (participants room)" "distinct ks"
  shows "set_sorted_keys room_id ks s =
           (Inr (), store room_id (room\<lparr>sorted_keys := ks, status := SORTED,
                                       version := version room + 1\<rparr>) s)"
  using assms by (simp add: set_sorted_keys_def get_room_live update_live distinct_card)

lemma add_message_alone:
  assumes "pending s = []" "rooms_dict (world s) room_id = Some room" "id' room = room_id"
    "\<not> expired (utcnow (world s)) room" "status room \<noteq> OPEN"
    "length (messages room) < length (sorted_keys room)"
  shows "add_message room_id blob s =
           (Inr (), store room_id (room\<lparr>status := MESSAGING, messages := messages room @ [blob],
                                       version := version room + 1\<rparr>) s)"
proof (cases "status room = SORTED")
  case True
  with assms show ?thesis by (simp add: loop_heads get_room_live update_live)
next
  case False
  with assms have "status room = MESSAGING" by (cases "status room") simp_all
  then have e: "room\<lparr>status := MESSAGING\<rparr> = room" by simp
  from assms False show ?thesis by (simp add: loop_heads get_room_live update_live e)
qed

subsection \<open>The example run\<close>

lemma store_store: "store k v (store k v' s) = store k v s"
  by (simp add: store_def)

lemma sys_new_live:
  "pending (store ''r1'' room sys_new) = []"
  "rooms_dict (world (store ''r1'' room sys_new)) ''r1'' = Some room"
  "utcnow (world (store ''r1'' room sys_new)) = 1000"
  by (simp_all add: store_def sys_new_def)

lemma sys_new_store: "store ''r1'' room_new sys_new = sys_new"
  by (simp add: store_def sys_new_def)

lemma live_1000: "created_at room = 1000 \<Longrightarrow> \<not> expired 1000 room"
  by (simp add: timedelta_seconds_def ROOM_TTL_SECONDS_def)

lemma ttl_nonneg: "\<not> timedelta_seconds ROOM_TTL_SECONDS < 0"
  by (simp add: timedelta_seconds_def ROOM_TTL_SECONDS_def)

lemma serve_create: "serve H (CreateRoom ''r1'' ''23'' ''5'' ''pk'' ''h'') sys_empty = sys_new"
  by (simp add: create_room_route_def datetime_utcnow_def create_room_def rooms_dict_setitem_store
      yield_idle sys_empty_def sys_new_def room_new_def store_def)

lemma serve_register_one: "serve H (Register ''r1'' ''key'') sys_new = sys_one"
proof -
  have "add_participant ''r1'' ''key'' sys_new
      = (Inr (), store ''r1'' (room_new\<lparr>participants := participants room_new @ [''key''],
           version := version room_new + 1\<rparr>) sys_new)"
    by (rule add_participant_alone) (simp_all add: sys_new_def room_new_def ttl_nonneg)
  then show ?thesis by (simp add: register_def sys_one_def room_new_def)
qed

lemma serve_register_three:
  "serve H (Register ''r1'' ''key3'') (serve H (Register ''r1'' ''key2'') sys_one)
   = store ''r1'' room_three sys_new"
proof -
  let ?r1 = "room_new\<lparr>participants := [''key''], version := 1\<rparr>"
  let ?r2 = "room_new\<lparr>participants := [''key'', ''key2''], version := 2\<rparr>"
  have "add_participant ''r1'' ''key2'' (store ''r1'' ?r1 sys_new)
      = (Inr (), store ''r1'' (?r1\<lparr>participants := participants ?r1 @ [''key2''],
           version := version ?r1 + 1\<rparr>) (store ''r1'' ?r1 sys_new))"
    by (rule add_participant_alone) (simp_all add: sys_new_live, simp_all add: room_new_def ttl_nonneg)
  then have a: "serve H (Register ''r1'' ''key2'') sys_one = store ''r1'' ?r2 sys_new"
    by (simp add: register_def sys_one_def store_store)
  have "add_participant ''r1'' ''key3'' (store ''r1'' ?r2 sys_new)
      = (Inr (), store ''r1'' (?r2\<lparr>participants := participants ?r2 @ [''key3''],
           version := version ?r2 + 1\<rparr>) (store ''r1'' ?r2 sys_new))"
    by (rule add_participant_alone) (simp_all add: sys_new_live, simp_all add: room_new_def ttl_nonneg)
  then show ?thesis unfolding a by (simp add: register_def store_store room_three_def)
qed

lemma serve_sort:
  "serve example_hash (SortKeys ''r1'' [''k1'', ''k2'', ''k3''] (Some ''secret''))
     (store ''r1'' room_three sys_new) = store ''r1'' room_sorted sys_new"
proof -
  let ?s = "store ''r1'' room_three sys_new"
  have g: "get_room ''r1'' ?s = (Some room_three, ?s)"
    by (rule get_room_live) (simp_all add: sys_new_live room_three_def room_new_def ttl_nonneg)
  have v: "verify_chair example_hash room_three (Some ''secret'')"
    by (simp add: verify_chair_def example_hash_def room_three_def room_new_def)
  have "set_sorted_keys ''r1'' [''k1'', ''k2'', ''k3''] ?s
      = (Inr (), store ''r1'' (room_three\<lparr>sorted_keys := [''k1'', ''k2'', ''k3''], status := SORTED,
           version := version room_three + 1\<rparr>) ?s)"
    by (rule set_sorted_keys_alone)
       (simp_all add: sys_new_live, simp_all add: room_three_def room_new_def ttl_nonneg)
  then show ?thesis using g v
    by (simp add: sort_keys_def store_store room_sorted_def room_three_def)
qed

lemma serve_post:
  "serve H (PostMessage ''r1'' ''m1'') (store ''r1'' room_sorted sys_new)
     = store ''r1'' room_messaging sys_new"
proof -
  let ?s = "store ''r1'' room_sorted sys_new"
  have "add_message ''r1'' ''m1'' ?s
      = (Inr (), store ''r1'' (room_sorted\<lparr>status := MESSAGING, messages := messages room_sorted @ [''m1''],
           version := version room_sorted + 1\<rparr>) ?s)"
    by (rule add_message_alone)
       (simp_all add: sys_new_live, simp_all add: room_sorted_def room_three_def room_new_def ttl_nonneg)
  then show ?thesis
    by (simp add: post_message_def store_store room_messaging_def room_sorted_def room_three_def room_new_def)
qed

lemma reachable_sys_new: "reachable H R sys_new"
proof -
  have "reachable H R sys_empty" unfolding sys_empty_def by (rule reachable.boot)
  from reachable.request[OF this, of "CreateRoom ''r1'' ''23'' ''5'' ''pk'' ''h''"]
  show ?thesis by (simp only: serve_create)
qed

lemma reachable_sys_one: "reachable H R sys_one"
  using reachable.request[OF reachable_sys_new, of H R "Register ''r1'' ''key''"]
  by (simp only: serve_register_one)

lemma reachable_sys_three: "reachable H R (store ''r1'' room_three sys_new)"
  using reachable.request[OF reachable.request[OF reachable_sys_one,
           of H R "Register ''r1'' ''key2''"], of "Register ''r1'' ''key3''"]
  by (simp only: serve_register_three)

lemma reachable_sys_sorted: "reachable example_hash R (store ''r1'' room_sorted sys_new)"
  using reachable.request[OF reachable_sys_three,
          of example_hash R "SortKeys ''r1'' [''k1'', ''k2'', ''k3''] (Some ''secret'')"]
  by (simp only: serve_sort)

lemma reachable_sys_messaging: "reachable example_hash R (store ''r1'' room_messaging sys_new)"
  using reachable.request[OF reachable_sys_sorted, of R "PostMessage ''r1'' ''m1''"]
  by (simp only: serve_post)

subsection \<open>What a failed attempt leaves, and what a successful one writes\<close>

text \<open>
  The three operations, for a relation \<open>Rel\<close> between the states of the system that every
  read and every sleep of a client respects, on states where \<open>P\<close> holds: a failed operation
  leaves a state related to the one it started in; a successful one has read a room in a
  state related to the one it started in, has found the same version on reading it again,
  and has written that room, modified and with the version plus one, under the room's id.
\<close>

lemma update_lost:
  "update_room_with_version room ev s = (False, s') \<Longrightarrow> \<exists>cur. get_room (id' room) s = (cur, s')"
  by (drule update_cases) auto

lemma update_won:
  "update_room_with_version room ev s = (True, s') \<Longrightarrow>
     \<exists>cur s2. get_room (id' room) s = (Some cur, s2) \<and> version cur = ev
        \<and> s' = store (id' room) (room\<lparr>version := ev + 1\<rparr>) (yield s2)"
  by (drule update_cases) auto

lemma add_participant_loop_result:
  assumes step: "\<And>rid s x s'. P s \<Longrightarrow> get_room rid s = (x, s') \<Longrightarrow> Rel s s' \<and> P s'"
    and sleep: "\<And>s d. P s \<Longrightarrow> Rel s (time_sleep d s) \<and> P (time_sleep d s)"
    and refl: "\<And>s. P s \<Longrightarrow> Rel s s"
    and trans: "\<And>a b c. Rel a b \<Longrightarrow> Rel b c \<Longrightarrow> Rel a c"
  shows "P s \<Longrightarrow> add_participant_loop atts rid k s = (res, s') \<Longrightarrow>
     (\<forall>e. res = Inl e \<longrightarrow> Rel s s') \<and>
     (res = Inr () \<longrightarrow>
        (\<exists>s0 s1 s2 room cur. Rel s s0 \<and> get_room rid s0 = (Some room, s1)
           \<and> status room = OPEN \<and> k \<notin> set (participants room)
           \<and> get_room (id' room) s1 = (Some cur, s2) \<and> version cur = version room
           \<and> s' = store (id' room) (room\<lparr>participants := participants room @ [k],
                                           version := version room + 1\<rparr>) (yield s2)))"
proof (induction atts arbitrary: s)
  case Nil
  then show ?case using refl by auto
next
  case (Cons a atts)
  obtain x s1 where g: "get_room rid s = (x, s1)" by (cases "get_room rid s")
  from step[OF Cons.prems(1) g] have n1: "Rel s s1" and p1: "P s1" by simp_all
  show ?case
  proof (cases x)
    case None
    with g n1 Cons.prems(2) show ?thesis by auto
  next
    case (Some r)
    let ?room = "r\<lparr>participants := participants r @ [k]\<rparr>"
    obtain ok s2 where u: "update_room_with_version ?room (version r) s1 = (ok, s2)"
      by (cases "update_room_with_version ?room (version r) s1")
    show ?thesis
    proof (cases "status r = OPEN \<and> k \<notin> set (participants r)")
      case False
      with g Some n1 Cons.prems(2) show ?thesis by (auto split: if_splits)
    next
      case ok_room: True
      have body: "add_participant_loop (a # atts) rid k s =
          (if ok then (Inr (), s2)
           else add_participant_loop atts rid k (time_sleep (TrueDiv (RETRY_DELAY_MS * 2 ^ a) 1000) s2))"
        using g Some ok_room u by (simp add: Let_def)
      show ?thesis
      proof (cases ok)
        case True
        from u True have "update_room_with_version ?room (version r) s1 = (True, s2)" by simp
        from update_won[OF this] obtain cur s3 where
          w: "get_room (id' r) s1 = (Some cur, s3)" "version cur = version r"
             "s2 = store (id' r) (r\<lparr>participants := participants r @ [k], version := version r + 1\<rparr>) (yield s3)"
          by auto
        have "res = Inr ()" "s' = s2" using Cons.prems(2) body True by simp_all
        with w g Some ok_room refl[OF Cons.prems(1)] show ?thesis
          by (intro conjI impI allI exI[of _ s] exI[of _ s1] exI[of _ s3] exI[of _ r] exI[of _ cur])
             simp_all
      next
        case False
        let ?s3 = "time_sleep (TrueDiv (RETRY_DELAY_MS * 2 ^ a) 1000) s2"
        from u False have "update_room_with_version ?room (version r) s1 = (False, s2)" by simp
        from update_lost[OF this] obtain cur where "get_room (id' ?room) s1 = (cur, s2)" by blast
        from step[OF p1 this] have n2: "Rel s1 s2" and p2: "P s2" by simp_all
        from sleep[OF p2] have n3: "Rel s2 ?s3" and p3: "P ?s3" by simp_all
        have n: "Rel s ?s3" using n1 n2 n3 trans by blast
        have rec: "add_participant_loop atts rid k ?s3 = (res, s')"
          using Cons.prems(2) body False by simp
        from Cons.IH[OF p3 rec] n trans show ?thesis by blast
      qed
    qed
  qed
qed

lemma add_message_loop_result:
  assumes step: "\<And>rid s x s'. P s \<Longrightarrow> get_room rid s = (x, s') \<Longrightarrow> Rel s s' \<and> P s'"
    and sleep: "\<And>s d. P s \<Longrightarrow> Rel s (time_sleep d s) \<and> P (time_sleep d s)"
    and refl: "\<And>s. P s \<Longrightarrow> Rel s s"
    and trans: "\<And>a b c. Rel a b \<Longrightarrow> Rel b c \<Longrightarrow> Rel a c"
  shows "P s \<Longrightarrow> add_message_loop atts rid blob s = (res, s') \<Longrightarrow>
     (\<forall>e. res = Inl e \<longrightarrow> Rel s s') \<and>
     (res = Inr () \<longrightarrow>
        (\<exists>s0 s1 s2 room cur. Rel s s0 \<and> get_room rid s0 = (Some room, s1)
           \<and> status room \<noteq> OPEN \<and> length (messages room) < length (sorted_keys room)
           \<and> get_room (id' room) s1 = (Some cur, s2) \<and> version cur = version room
           \<and> s' = store (id' room) (room\<lparr>status := MESSAGING, messages := messages room @ [blob],
                                           version := version room + 1\<rparr>) (yield s2)))"
proof (induction atts arbitrary: s)
  case Nil
  then show ?case using refl by auto
next
  case (Cons a atts)
  obtain x s1 where g: "get_room rid s = (x, s1)" by (cases "get_room rid s")
  from step[OF Cons.prems(1) g] have n1: "Rel s s1" and p1: "P s1" by simp_all
  show ?case
  proof (cases x)
    case None
    with g n1 Cons.prems(2) show ?thesis by auto
  next
    case (Some r)
    let ?room = "r\<lparr>status := MESSAGING, messages := messages r @ [blob]\<rparr>"
    obtain ok s2 where u: "update_room_with_version ?room (version r) s1 = (ok, s2)"
      by (cases "update_room_with_version ?room (version r) s1")
    show ?thesis
    proof (cases "status r \<noteq> OPEN \<and> length (messages r) < length (sorted_keys r)")
      case False
      with g Some n1 Cons.prems(2) show ?thesis by (auto split: if_splits)
    next
      case ok_room: True
      then have "status r = SORTED \<or> status r = MESSAGING" by (cases "status r") simp_all
      then have e: "(if status r = SORTED then r\<lparr>status := MESSAGING\<rparr> else r) = r\<lparr>status := MESSAGING\<rparr>"
        by auto
      have body: "add_message_loop (a # atts) rid blob s =
          (if ok then (Inr (), s2)
           else add_message_loop atts rid blob (time_sleep (TrueDiv (RETRY_DELAY_MS * 2 ^ a) 1000) s2))"
        using g Some ok_room u by (simp add: Let_def e)
      show ?thesis
      proof (cases ok)
        case True
        from u True have "update_room_with_version ?room (version r) s1 = (True, s2)" by simp
        from update_won[OF this] obtain cur s3 where
          w: "get_room (id' r) s1 = (Some cur, s3)" "version cur = version r"
             "s2 = store (id' r) (r\<lparr>status := MESSAGING, messages := messages r @ [blob], version := version r + 1\<rparr>) (yield s3)"
          by auto
        have "res = Inr ()" "s' = s2" using Cons.prems(2) body True by simp_all
        with w g Some ok_room refl[OF Cons.prems(1)] show ?thesis
          by (intro conjI impI allI exI[of _ s] exI[of _ s1] exI[of _ s3] exI[of _ r] exI[of _ cur])
             simp_all
      next
        case False
        let ?s3 = "time_sleep (TrueDiv (RETRY_DELAY_MS * 2 ^ a) 1000) s2"
        from u False have "update_room_with_version ?room (version r) s1 = (False, s2)" by simp
        from update_lost[OF this] obtain cur where "get_room (id' ?room) s1 = (cur, s2)" by blast
        from step[OF p1 this] have n2: "Rel s1 s2" and p2: "P s2" by simp_all
        from sleep[OF p2] have n3: "Rel s2 ?s3" and p3: "P ?s3" by simp_all
        have n: "Rel s ?s3" using n1 n2 n3 trans by blast
        have rec: "add_message_loop atts rid blob ?s3 = (res, s')"
          using Cons.prems(2) body False by simp
        from Cons.IH[OF p3 rec] n trans show ?thesis by blast
      qed
    qed
  qed
qed

lemma set_sorted_keys_result:
  assumes step: "\<And>rid s x s'. P s \<Longrightarrow> get_room rid s = (x, s') \<Longrightarrow> Rel s s' \<and> P s'"
    and sleep: "\<And>s d. P s \<Longrightarrow> Rel s (time_sleep d s) \<and> P (time_sleep d s)"
    and refl: "\<And>s. P s \<Longrightarrow> Rel s s"
    and trans: "\<And>a b c. Rel a b \<Longrightarrow> Rel b c \<Longrightarrow> Rel a c"
    and p: "P s" and run: "set_sorted_keys rid ks s = (res, s')"
  shows "(\<forall>e. res = Inl e \<longrightarrow> Rel s s') \<and>
     (res = Inr () \<longrightarrow>
        (\<exists>s1 s2 room cur. get_room rid s = (Some room, s1)
           \<and> status room = OPEN \<and> 3 \<le> length ks \<and> length ks = length (participants room)
           \<and> distinct ks
           \<and> get_room (id' room) s1 = (Some cur, s2) \<and> version cur = version room
           \<and> s' = store (id' room) (room\<lparr>sorted_keys := ks, status := SORTED,
                                           version := version room + 1\<rparr>) (yield s2)))"
proof -
  obtain x s1 where g: "get_room rid s = (x, s1)" by (cases "get_room rid s")
  from step[OF p g] have n1: "Rel s s1" and p1: "P s1" by simp_all
  show ?thesis
  proof (cases x)
    case None
    with g n1 run show ?thesis by (auto simp: set_sorted_keys_def)
  next
    case (Some r)
    let ?room = "r\<lparr>sorted_keys := ks, status := SORTED\<rparr>"
    obtain ok s2 where u: "update_room_with_version ?room (version r) s1 = (ok, s2)"
      by (cases "update_room_with_version ?room (version r) s1")
    show ?thesis
    proof (cases "status r = OPEN \<and> 3 \<le> length ks \<and> length ks = length (participants r)
                   \<and> length ks = card (set ks)")
      case False
      with g Some n1 run show ?thesis by (auto simp: set_sorted_keys_def split: if_splits)
    next
      case ok_room: True
      then have d: "distinct ks" by (simp add: card_distinct)
      have body: "set_sorted_keys rid ks s =
          (if \<not> ok then (Inl (ConcurrentModificationError ''Room was modified during sorting''), s2)
           else (Inr (), s2))"
        using g Some ok_room u by (simp add: set_sorted_keys_def Let_def)
      show ?thesis
      proof (cases ok)
        case True
        from u True have "update_room_with_version ?room (version r) s1 = (True, s2)" by simp
        from update_won[OF this] obtain cur s3 where
          w: "get_room (id' r) s1 = (Some cur, s3)" "version cur = version r"
             "s2 = store (id' r) (r\<lparr>sorted_keys := ks, status := SORTED,
                                     version := version r + 1\<rparr>) (yield s3)"
          by auto
        have "res = Inr ()" "s' = s2" using run body True by simp_all
        with w g Some ok_room d show ?thesis
          by (intro conjI impI allI exI[of _ s1] exI[of _ s3] exI[of _ r] exI[of _ cur])
             simp_all
      next
        case False
        from u False have "update_room_with_version ?room (version r) s1 = (False, s2)" by simp
        from update_lost[OF this] obtain cur where "get_room (id' ?room) s1 = (cur, s2)" by blast
        from step[OF p1 this] n1 trans have "Rel s s2" by blast
        then show ?thesis using run body False by auto
      qed
    qed
  qed
qed

subsection \<open>A client that writes nothing\<close>

lemma no_write_trans: "no_write b c \<Longrightarrow> no_write a b \<Longrightarrow> no_write a c"
  by (induction rule: no_write.induct) (auto intro: no_write.intros)

lemma get_room_no_write: "get_room rid s = (x, s') \<Longrightarrow> no_write s s'"
  by (drule get_room_cases) (auto split: if_splits intro!: no_write.intros)

subsection \<open>A client that runs alone and writes nothing\<close>

lemma calm_refl: "pending s = [] \<Longrightarrow> calm s s"
  by (simp add: calm_def)

lemma calm_trans: "calm a b \<Longrightarrow> calm b c \<Longrightarrow> calm a c"
  unfolding calm_def by (intro conjI allI) (simp, simp, metis option.distinct(1))

lemma calm_sleep: "pending s = [] \<Longrightarrow> calm s (time_sleep d s) \<and> pending (time_sleep d s) = []"
  by (simp add: calm_def time_sleep_def)

lemma get_room_calm:
  assumes "pending s = []" "get_room rid s = (x, s')"
  shows "calm s s' \<and> pending s' = []"
proof (cases "rooms_dict (world s) rid")
  case None
  with assms get_room_absent[OF assms(1) None] show ?thesis by (simp add: calm_def)
next
  case (Some r)
  show ?thesis
  proof (cases "expired (utcnow (world s)) r")
    case True
    with assms Some get_room_expired[OF assms(1) Some True] show ?thesis
      by (auto simp: calm_def evict_simps split: if_splits)
  next
    case False
    with assms get_room_live[OF assms(1) Some False] show ?thesis by (simp add: calm_def)
  qed
qed

subsection \<open>The delays\<close>

lemma set_sorted_keys_slept: "slept (snd (set_sorted_keys rid ks s)) = slept s"
proof -
  obtain x s1 where g: "get_room rid s = (x, s1)" by (cases "get_room rid s")
  show ?thesis
  proof (cases x)
    case None
    with g slept_get_room[OF g] show ?thesis by (simp add: set_sorted_keys_def)
  next
    case (Some r)
    obtain ok s2 where u: "update_room_with_version (r\<lparr>sorted_keys := ks, status := SORTED\<rparr>)
         (version r) s1 = (ok, s2)"
      by (cases "update_room_with_version (r\<lparr>sorted_keys := ks, status := SORTED\<rparr>) (version r) s1")
    from g Some u slept_get_room[OF g] slept_update[OF u] show ?thesis
      by (simp add: set_sorted_keys_def Let_def)
  qed
qed

lemma add_participant_loop_slept:
  "add_participant_loop atts rid k s = (res, s') \<Longrightarrow>
     \<exists>n \<le> length atts. slept s' = slept s @ map backoff (take n atts)
        \<and> (\<forall>m. res = Inl (ConcurrentModificationError m) \<longrightarrow> n = length atts)"
proof (induction atts arbitrary: s)
  case Nil
  then show ?case by auto
next
  case (Cons a atts)
  obtain x s1 where g: "get_room rid s = (x, s1)" by (cases "get_room rid s")
  note sl1 = slept_get_room[OF g]
  have stop: ?case if "s' = s1 \<or> (\<exists>s2. slept s2 = slept s1 \<and> s' = s2)"
      "\<And>m. res \<noteq> Inl (ConcurrentModificationError m)"
    using that sl1 by (intro exI[of _ 0]) auto
  show ?case
  proof (cases x)
    case None
    with g Cons.prems show ?thesis by (intro stop) auto
  next
    case (Some r)
    let ?room = "r\<lparr>participants := participants r @ [k]\<rparr>"
    obtain ok s2 where u: "update_room_with_version ?room (version r) s1 = (ok, s2)"
      by (cases "update_room_with_version ?room (version r) s1")
    note sl2 = slept_update[OF u]
    show ?thesis
    proof (cases "status r = OPEN \<and> k \<notin> set (participants r)")
      case False
      with g Some Cons.prems show ?thesis by (intro stop) (auto split: if_splits)
    next
      case ok_room: True
      show ?thesis
      proof (cases ok)
        case True
        with g Some ok_room u Cons.prems sl2 show ?thesis by (intro stop) (auto simp: Let_def)
      next
        case False
        let ?s3 = "time_sleep (TrueDiv (RETRY_DELAY_MS * 2 ^ a) 1000) s2"
        have rec: "add_participant_loop atts rid k ?s3 = (res, s')"
          using Cons.prems g Some ok_room u False by (simp add: Let_def)
        from Cons.IH[OF rec] obtain n where n: "n \<le> length atts"
          "slept s' = slept ?s3 @ map backoff (take n atts)"
          "\<And>m. res = Inl (ConcurrentModificationError m) \<Longrightarrow> n = length atts" by blast
        have "slept ?s3 = slept s @ [backoff a]"
          using sl1 sl2 by (simp add: time_sleep_def backoff_def)
        with n show ?thesis by (intro exI[of _ "Suc n"]) auto
      qed
    qed
  qed
qed

lemma add_message_loop_slept:
  "add_message_loop atts rid blob s = (res, s') \<Longrightarrow>
     \<exists>n \<le> length atts. slept s' = slept s @ map backoff (take n atts)
        \<and> (\<forall>m. res = Inl (ConcurrentModificationError m) \<longrightarrow> n = length atts)"
proof (induction atts arbitrary: s)
  case Nil
  then show ?case by auto
next
  case (Cons a atts)
  obtain x s1 where g: "get_room rid s = (x, s1)" by (cases "get_room rid s")
  note sl1 = slept_get_room[OF g]
  have stop: ?case if "s' = s1 \<or> (\<exists>s2. slept s2 = slept s1 \<and> s' = s2)"
      "\<And>m. res \<noteq> Inl (ConcurrentModificationError m)"
    using that sl1 by (intro exI[of _ 0]) auto
  show ?case
  proof (cases x)
    case None
    with g Cons.prems show ?thesis by (intro stop) auto
  next
    case (Some r)
    let ?room = "r\<lparr>status := MESSAGING, messages := messages r @ [blob]\<rparr>"
    obtain ok s2 where u: "update_room_with_version ?room (version r) s1 = (ok, s2)"
      by (cases "update_room_with_version ?room (version r) s1")
    note sl2 = slept_update[OF u]
    show ?thesis
    proof (cases "status r \<noteq> OPEN \<and> length (messages r) < length (sorted_keys r)")
      case False
      with g Some Cons.prems show ?thesis by (intro stop) (auto split: if_splits)
    next
      case ok_room: True
      then have "status r = SORTED \<or> status r = MESSAGING" by (cases "status r") simp_all
      then have e: "(if status r = SORTED then r\<lparr>status := MESSAGING\<rparr> else r) = r\<lparr>status := MESSAGING\<rparr>"
        by auto
      have body: "add_message_loop (a # atts) rid blob s =
          (if ok then (Inr (), s2)
           else add_message_loop atts rid blob (time_sleep (TrueDiv (RETRY_DELAY_MS * 2 ^ a) 1000) s2))"
        using g Some ok_room u by (simp add: Let_def e)
      show ?thesis
      proof (cases ok)
        case True
        with body Cons.prems sl2 show ?thesis by (intro stop) auto
      next
        case False
        let ?s3 = "time_sleep (TrueDiv (RETRY_DELAY_MS * 2 ^ a) 1000) s2"
        have rec: "add_message_loop atts rid blob ?s3 = (res, s')"
          using Cons.prems body False by simp
        from Cons.IH[OF rec] obtain n where n: "n \<le> length atts"
          "slept s' = slept ?s3 @ map backoff (take n atts)"
          "\<And>m. res = Inl (ConcurrentModificationError m) \<Longrightarrow> n = length atts" by blast
        have "slept ?s3 = slept s @ [backoff a]"
          using sl1 sl2 by (simp add: time_sleep_def backoff_def)
        with n show ?thesis by (intro exI[of _ "Suc n"]) auto
      qed
    qed
  qed
qed

lemma get_room_alone_Some:
  assumes "pending s = []" "get_room rid s = (Some room, s1)"
  shows "rooms_dict (world s) rid = Some room"
  using get_room_cases[OF assms(2)] assms(1) by (auto simp: yield_idle split: if_splits)

lemma add_participant_loop_no_write:
  assumes "add_participant_loop atts rid k s = (res, s')"
  shows "(\<forall>e. res = Inl e \<longrightarrow> no_write s s') \<and>
     (res = Inr () \<longrightarrow>
        (\<exists>s0 s1 s2 room cur. no_write s s0 \<and> get_room rid s0 = (Some room, s1)
           \<and> status room = OPEN \<and> k \<notin> set (participants room)
           \<and> get_room (id' room) s1 = (Some cur, s2) \<and> version cur = version room
           \<and> s' = store (id' room) (room\<lparr>participants := participants room @ [k],
                                           version := version room + 1\<rparr>) (yield s2)))"
proof (rule add_participant_loop_result[where P = "\<lambda>s. True" and Rel = no_write])
  show "add_participant_loop atts rid k s = (res, s')" by (rule assms)
qed (auto intro: get_room_no_write no_write.intros no_write_trans[rotated])

lemma add_participant_loop_calm:
  assumes "pending s = []" "add_participant_loop atts rid k s = (res, s')"
  shows "(\<forall>e. res = Inl e \<longrightarrow> calm s s') \<and>
     (res = Inr () \<longrightarrow>
        (\<exists>s0 s1 s2 room cur. calm s s0 \<and> get_room rid s0 = (Some room, s1)
           \<and> status room = OPEN \<and> k \<notin> set (participants room)
           \<and> get_room (id' room) s1 = (Some cur, s2) \<and> version cur = version room
           \<and> s' = store (id' room) (room\<lparr>participants := participants room @ [k],
                                           version := version room + 1\<rparr>) (yield s2)))"
proof (rule add_participant_loop_result[where P = "\<lambda>s. pending s = []" and Rel = calm])
  show "add_participant_loop atts rid k s = (res, s')" by (rule assms)
qed (use assms(1) in \<open>auto intro: calm_refl calm_trans dest: get_room_calm calm_sleep\<close>)

lemma add_message_loop_no_write:
  assumes "add_message_loop atts rid blob s = (res, s')"
  shows "(\<forall>e. res = Inl e \<longrightarrow> no_write s s') \<and>
     (res = Inr () \<longrightarrow>
        (\<exists>s0 s1 s2 room cur. no_write s s0 \<and> get_room rid s0 = (Some room, s1)
           \<and> status room \<noteq> OPEN \<and> length (messages room) < length (sorted_keys room)
           \<and> get_room (id' room) s1 = (Some cur, s2) \<and> version cur = version room
           \<and> s' = store (id' room) (room\<lparr>status := MESSAGING, messages := messages room @ [blob],
                                           version := version room + 1\<rparr>) (yield s2)))"
proof (rule add_message_loop_result[where P = "\<lambda>s. True" and Rel = no_write])
  show "add_message_loop atts rid blob s = (res, s')" by (rule assms)
qed (auto intro: get_room_no_write no_write.intros no_write_trans[rotated])

lemma add_message_loop_calm:
  assumes "pending s = []" "add_message_loop atts rid blob s = (res, s')"
  shows "(\<forall>e. res = Inl e \<longrightarrow> calm s s') \<and>
     (res = Inr () \<longrightarrow>
        (\<exists>s0 s1 s2 room cur. calm s s0 \<and> get_room rid s0 = (Some room, s1)
           \<and> status room \<noteq> OPEN \<and> length (messages room) < length (sorted_keys room)
           \<and> get_room (id' room) s1 = (Some cur, s2) \<and> version cur = version room
           \<and> s' = store (id' room) (room\<lparr>status := MESSAGING, messages := messages room @ [blob],
                                           version := version room + 1\<rparr>) (yield s2)))"
proof (rule add_message_loop_result[where P = "\<lambda>s. pending s = []" and Rel = calm])
  show "add_message_loop atts rid blob s = (res, s')" by (rule assms)
qed (use assms(1) in \<open>auto intro: calm_refl calm_trans dest: get_room_calm calm_sleep\<close>)

lemma set_sorted_keys_no_write:
  assumes "set_sorted_keys rid ks s = (res, s')"
  shows "(\<forall>e. res = Inl e \<longrightarrow> no_write s s') \<and>
     (res = Inr () \<longrightarrow>
        (\<exists>s1 s2 room cur. get_room rid s = (Some room, s1)
           \<and> status room = OPEN \<and> 3 \<le> length ks \<and> length ks = length (participants room)
           \<and> distinct ks
           \<and> get_room (id' room) s1 = (Some cur, s2) \<and> version cur = version room
           \<and> s' = store (id' room) (room\<lparr>sorted_keys := ks, status := SORTED,
                                           version := version room + 1\<rparr>) (yield s2)))"
proof (rule set_sorted_keys_result[where P = "\<lambda>s. True" and Rel = no_write])
  show "set_sorted_keys rid ks s = (res, s')" by (rule assms)
qed (auto intro: get_room_no_write no_write.intros no_write_trans[rotated])

lemma set_sorted_keys_calm:
  assumes "pending s = []" "set_sorted_keys rid ks s = (res, s')"
  shows "(\<forall>e. res = Inl e \<longrightarrow> calm s s') \<and>
     (res = Inr () \<longrightarrow>
        (\<exists>s1 s2 room cur. get_room rid s = (Some room, s1)
           \<and> status room = OPEN \<and> 3 \<le> length ks \<and> length ks = length (participants room)
           \<and> distinct ks
           \<and> get_room (id' room) s1 = (Some cur, s2) \<and> version cur = version room
           \<and> s' = store (id' room) (room\<lparr>sorted_keys := ks, status := SORTED,
                                           version := version room + 1\<rparr>) (yield s2)))"
proof (rule set_sorted_keys_result[where P = "\<lambda>s. pending s = []" and Rel = calm])
  show "set_sorted_keys rid ks s = (res, s')" by (rule assms)
qed (use assms(1) in \<open>auto intro: calm_refl calm_trans dest: get_room_calm calm_sleep\<close>)

lemma stored_after_write: "rooms_dict (world (store k v s)) k = Some v"
  by (simp add: store_def)

subsection \<open>The race of the example\<close>

lemma sys_race_sort:
  "set_sorted_keys ''r1'' [''k1'', ''k2'', ''k3''] sys_race
   = (Inl (ConcurrentModificationError ''Room was modified during sorting''),
      store ''r1'' room_four sys_new)"
  by (simp add: set_sorted_keys_def update_room_with_version_def get_room_unfold sys_race_def sys_three_def
        store_def sys_new_def yield_def other_registers_def room_four_def room_three_def room_new_def
        timedelta_seconds_def ROOM_TTL_SECONDS_def)

lemma sys_race_register:
  "add_participant ''r1'' ''key5'' sys_race
   = (Inr (), time_sleep (TrueDiv 50 1000) (store ''r1''
        (room_four\<lparr>participants := [''key'', ''key2'', ''key3'', ''key4'', ''key5''], version := 5\<rparr>) sys_new))"
  by (simp add: loop_heads update_room_with_version_def get_room_unfold sys_race_def sys_three_def
        store_def sys_new_def yield_def other_registers_def room_four_def room_three_def room_new_def
        timedelta_seconds_def ROOM_TTL_SECONDS_def time_sleep_def RETRY_DELAY_MS_def rooms_dict_setitem_def)

lemma sys_old_message:
  "add_message ''r1'' ''m1'' sys_old = (Inl (ValueError ''Room r1 not found''), evict ''r1'' sys_old)"
proof -
  have "get_room ''r1'' sys_old = (None, evict ''r1'' sys_old)"
    by (rule get_room_expired[where r = room_new])
       (simp_all add: sys_old_def sys_new_def room_new_def set_clock_def
          timedelta_seconds_def ROOM_TTL_SECONDS_def)
  then show ?thesis by (simp add: loop_heads)
qed

subsection \<open>The lost update of the example\<close>

lemma others_register:
  assumes "rooms_dict w room_id = Some room" "id' room = room_id" "\<not> expired (utcnow w) room"
    "status room = OPEN" "k \<notin> set (participants room)"
  shows "other_client_registers room_id k w
       = w\<lparr>rooms_dict := (rooms_dict w)(room_id \<mapsto>
            room\<lparr>participants := participants room @ [k], version := version room + 1\<rparr>)\<rparr>"
proof -
  let ?s = "\<lparr>world = w, pending = [], slept = []\<rparr>"
  have "add_participant room_id k ?s =
           (Inr (), store room_id (room\<lparr>participants := participants room @ [k],
                                       version := version room + 1\<rparr>) ?s)"
    by (rule add_participant_alone) (use assms in simp_all)
  then show ?thesis by (simp add: other_client_registers_def store_def)
qed

lemma others_register_twice:
  "other_client_registers ''r1'' ''keyC'' (other_client_registers ''r1'' ''keyB'' (world sys_three))
   = (world sys_three)\<lparr>rooms_dict := (rooms_dict (world sys_three))(''r1'' \<mapsto> room_others)\<rparr>"
proof -
  let ?w = "world sys_three"
  let ?rB = "room_three\<lparr>participants := participants room_three @ [''keyB''], version := version room_three + 1\<rparr>"
  have b: "other_client_registers ''r1'' ''keyB'' ?w = ?w\<lparr>rooms_dict := (rooms_dict ?w)(''r1'' \<mapsto> ?rB)\<rparr>"
    by (rule others_register)
       (simp_all add: sys_three_def sys_new_live, simp_all add: room_three_def room_new_def ttl_nonneg)
  have c: "other_client_registers ''r1'' ''keyC'' (?w\<lparr>rooms_dict := (rooms_dict ?w)(''r1'' \<mapsto> ?rB)\<rparr>)
     = (?w\<lparr>rooms_dict := (rooms_dict ?w)(''r1'' \<mapsto> ?rB)\<rparr>)\<lparr>rooms_dict :=
          (rooms_dict (?w\<lparr>rooms_dict := (rooms_dict ?w)(''r1'' \<mapsto> ?rB)\<rparr>))(''r1'' \<mapsto>
            ?rB\<lparr>participants := participants ?rB @ [''keyC''], version := version ?rB + 1\<rparr>)\<rparr>"
    by (rule others_register)
       (simp_all add: sys_three_def sys_new_live, simp_all add: room_three_def room_new_def ttl_nonneg)
  show ?thesis unfolding b c by (simp add: room_others_def room_three_def room_new_def)
qed

lemma sys_three_facts:
  "pending sys_three = []" "rooms_dict (world sys_three) ''r1'' = Some room_three"
  "utcnow (world sys_three) = 1000" "id' room_three = ''r1''" "created_at room_three = 1000"
  "status room_three = OPEN" "participants room_three = [''key'', ''key2'', ''key3'']"
  "version room_three = 3"
  by (simp_all add: sys_three_def sys_new_live room_three_def room_new_def)

lemma yield_cons: "pending s = f # fs \<Longrightarrow> yield s = s\<lparr>world := f (world s), pending := fs\<rparr>"
  by (simp add: yield_def)

lemma lost_update_read:
  "get_room ''r1'' sys_lost_update = (Some room_three, sys_read)"
  by (simp add: get_room_unfold sys_lost_update_def sys_read_def yield_def sys_three_facts ttl_nonneg)

lemma lost_update_check:
  "get_room ''r1'' sys_read = (Some room_three, sys_checked)"
  by (simp add: get_room_unfold sys_checked_def sys_read_def yield_def sys_three_facts ttl_nonneg)

lemma lost_update_before_write:
  "yield sys_checked = store ''r1'' room_others sys_new"
  by (simp add: sys_checked_def yield_def others_register_twice sys_three_facts)
     (simp add: sys_three_def store_def sys_new_def)

text \<open>
  What the version check does give: a successful operation has read a room in a state that
  it had reached without writing, has found the same version on reading the room again, and
  leaves under the room's id that room, modified, with the version it read plus one. For a
  client that runs alone on a room stored under its own id, the version stored after the
  operation is the version stored before it plus one.
\<close>

lemma written_version_is_read_plus_one:
  "(add_participant room_id k s = (Inr (), s') \<longrightarrow>
      (\<exists>s0 s1 s2 room cur. no_write s s0 \<and> get_room room_id s0 = (Some room, s1)
         \<and> get_room (id' room) s1 = (Some cur, s2) \<and> version cur = version room
         \<and> rooms_dict (world s') (id' room)
             = Some (room\<lparr>participants := participants room @ [k], version := version room + 1\<rparr>)))
   \<and> (add_message room_id blob s = (Inr (), s') \<longrightarrow>
      (\<exists>s0 s1 s2 room cur. no_write s s0 \<and> get_room room_id s0 = (Some room, s1)
         \<and> get_room (id' room) s1 = (Some cur, s2) \<and> version cur = version room
         \<and> rooms_dict (world s') (id' room)
             = Some (room\<lparr>status := MESSAGING, messages := messages room @ [blob],
                          version := version room + 1\<rparr>)))
   \<and> (set_sorted_keys room_id keys s = (Inr (), s') \<longrightarrow>
      (\<exists>s1 s2 room cur. get_room room_id s = (Some room, s1)
         \<and> get_room (id' room) s1 = (Some cur, s2) \<and> version cur = version room
         \<and> rooms_dict (world s') (id' room)
             = Some (room\<lparr>sorted_keys := keys, status := SORTED, version := version room + 1\<rparr>)))
   \<and> (pending s = [] \<longrightarrow> rooms_dict (world s) room_id = Some before \<longrightarrow> id' before = room_id \<longrightarrow>
        (add_participant room_id k s = (Inr (), s') \<or> add_message room_id blob s = (Inr (), s')
         \<or> set_sorted_keys room_id keys s = (Inr (), s')) \<longrightarrow>
        (\<exists>after. rooms_dict (world s') room_id = Some after \<and> version after = version before + 1))"
proof -
  have a: "\<exists>s0 s1 s2 room cur. no_write s s0 \<and> get_room room_id s0 = (Some room, s1)
         \<and> get_room (id' room) s1 = (Some cur, s2) \<and> version cur = version room
         \<and> rooms_dict (world s') (id' room)
             = Some (room\<lparr>participants := participants room @ [k], version := version room + 1\<rparr>)"
    if "add_participant room_id k s = (Inr (), s')"
    using add_participant_loop_no_write[OF that[unfolded add_participant_def]]
    by (auto simp: stored_after_write)
  have b: "\<exists>s0 s1 s2 room cur. no_write s s0 \<and> get_room room_id s0 = (Some room, s1)
         \<and> get_room (id' room) s1 = (Some cur, s2) \<and> version cur = version room
         \<and> rooms_dict (world s') (id' room)
             = Some (room\<lparr>status := MESSAGING, messages := messages room @ [blob],
                          version := version room + 1\<rparr>)"
    if "add_message room_id blob s = (Inr (), s')"
    using add_message_loop_no_write[OF that[unfolded add_message_def]]
    by (auto simp: stored_after_write)
  have c: "\<exists>s1 s2 room cur. get_room room_id s = (Some room, s1)
         \<and> get_room (id' room) s1 = (Some cur, s2) \<and> version cur = version room
         \<and> rooms_dict (world s') (id' room)
             = Some (room\<lparr>sorted_keys := keys, status := SORTED, version := version room + 1\<rparr>)"
    if "set_sorted_keys room_id keys s = (Inr (), s')"
    using set_sorted_keys_no_write[OF that]
    by (auto simp: stored_after_write)
  have d: "\<exists>after. rooms_dict (world s') room_id = Some after \<and> version after = version before + 1"
    if alone: "pending s = []" and stored: "rooms_dict (world s) room_id = Some before"
      and key: "id' before = room_id"
      and won: "add_participant room_id k s = (Inr (), s') \<or> add_message room_id blob s = (Inr (), s')
         \<or> set_sorted_keys room_id keys s = (Inr (), s')"
  proof -
    have same: "room = before" if "calm s s0" "get_room room_id s0 = (Some room, s1)" for s0 s1 room
    proof -
      from that(1) have "pending s0 = []" by (simp add: calm_def)
      from get_room_alone_Some[OF this that(2)] that(1) stored show ?thesis
        by (auto simp: calm_def dest: spec[of _ room_id])
    qed
    from won consider
        "add_participant_loop [0..<MAX_RETRIES] room_id k s = (Inr (), s')"
      | "add_message_loop [0..<MAX_RETRIES] room_id blob s = (Inr (), s')"
      | "set_sorted_keys room_id keys s = (Inr (), s')"
      by (auto simp: add_participant_def add_message_def)
    then show ?thesis
    proof cases
      case 1
      from add_participant_loop_calm[OF alone 1] obtain s0 s1 s2 room where
        w: "calm s s0" "get_room room_id s0 = (Some room, s1)"
           "s' = store (id' room) (room\<lparr>participants := participants room @ [k],
                                        version := version room + 1\<rparr>) (yield s2)"
        by auto
      from same[OF w(1,2)] w(3) key show ?thesis by (simp add: stored_after_write)
    next
      case 2
      from add_message_loop_calm[OF alone 2] obtain s0 s1 s2 room where
        w: "calm s s0" "get_room room_id s0 = (Some room, s1)"
           "s' = store (id' room) (room\<lparr>status := MESSAGING, messages := messages room @ [blob],
                                        version := version room + 1\<rparr>) (yield s2)"
        by auto
      from same[OF w(1,2)] w(3) key show ?thesis by (simp add: stored_after_write)
    next
      case 3
      from set_sorted_keys_calm[OF alone 3] obtain s1 s2 room where
        w: "get_room room_id s = (Some room, s1)"
           "s' = store (id' room) (room\<lparr>sorted_keys := keys, status := SORTED,
                                        version := version room + 1\<rparr>) (yield s2)"
        by auto
      from same[OF calm_refl[OF alone] w(1)] w(2) key show ?thesis by (simp add: stored_after_write)
    qed
  qed
  from a b c d show ?thesis by blast
qed

subsection \<open>The room that expires in the middle of an operation\<close>

lemma sys_new_facts:
  "pending sys_new = []" "rooms_dict (world sys_new) ''r1'' = Some room_new"
  "utcnow (world sys_new) = 1000" "id' room_new = ''r1''" "created_at room_new = 1000"
  "status room_new = OPEN" "participants room_new = []" "version room_new = 0"
  by (simp_all add: sys_new_def room_new_def)

lemma expired_late: "created_at room = 1000 \<Longrightarrow> expired 2592001001000 room"
  by (simp add: timedelta_seconds_def ROOM_TTL_SECONDS_def)

lemma expiring_read:
  "get_room ''r1'' sys_expiring = (Some room_new, sys_new\<lparr>pending := [clock_passes]\<rparr>)"
  by (simp add: get_room_unfold sys_expiring_def yield_def sys_new_facts ttl_nonneg)

lemma expiring_check:
  "get_room ''r1'' (sys_new\<lparr>pending := [clock_passes]\<rparr>) = (None, evict ''r1'' sys_old)"
  by (simp add: get_room_unfold yield_def sys_new_facts clock_passes_def timedelta_seconds_def ROOM_TTL_SECONDS_def)
     (simp add: sys_old_def set_clock_def evict_def sys_new_def)

lemma three_expiring_read:
  "get_room ''r1'' sys_three_expiring = (Some room_three, sys_three\<lparr>pending := [clock_passes]\<rparr>)"
  by (simp add: get_room_unfold sys_three_expiring_def yield_def sys_three_facts ttl_nonneg)

lemma three_expiring_check:
  "get_room ''r1'' (sys_three\<lparr>pending := [clock_passes]\<rparr>) = (None, evict ''r1'' sys_old)"
  by (simp add: get_room_unfold yield_def sys_three_facts clock_passes_def timedelta_seconds_def ROOM_TTL_SECONDS_def)
     (simp add: sys_old_def set_clock_def evict_def sys_new_def sys_three_def store_def)

lemma gone_read:
  "get_room ''r1'' (time_sleep d (evict ''r1'' sys_old)) = (None, time_sleep d (evict ''r1'' sys_old))"
  by (rule get_room_absent) (simp_all add: time_sleep_def evict_def sys_old_def set_clock_def sys_new_def)

subsection \<open>Lost attempts\<close>

lemma register_all_lost:
  "register_attempts_lost rid k atts s \<Longrightarrow>
     fst (add_participant_loop atts rid k s)
       = Inl (ConcurrentModificationError ''Failed to register after max retries, please try again'')
     \<and> slept (snd (add_participant_loop atts rid k s)) = slept s @ map backoff atts"
proof (induction atts arbitrary: s)
  case Nil
  then show ?case by simp
next
  case (Cons a atts)
  obtain x s1 where g: "get_room rid s = (x, s1)" by (cases "get_room rid s")
  from Cons.prems g obtain r where x: "x = Some r" by (cases x) auto
  let ?room = "r\<lparr>participants := participants r @ [k]\<rparr>"
  obtain ok s2 where u: "update_room_with_version ?room (version r) s1 = (ok, s2)"
    by (cases "update_room_with_version ?room (version r) s1")
  from Cons.prems g x u have v: "status r = OPEN" "k \<notin> set (participants r)" "\<not> ok"
    and rest: "register_attempts_lost rid k atts (time_sleep (backoff a) s2)"
    by simp_all
  have body: "add_participant_loop (a # atts) rid k s
      = add_participant_loop atts rid k (time_sleep (backoff a) s2)"
    using g x u v by (simp add: Let_def backoff_def)
  have "slept (time_sleep (backoff a) s2) = slept s @ [backoff a]"
    using slept_get_room[OF g] slept_update[OF u] by (simp add: time_sleep_def)
  with Cons.IH[OF rest] show ?case unfolding body by simp
qed

lemma message_all_lost:
  "message_attempts_lost rid blob atts s \<Longrightarrow>
     fst (add_message_loop atts rid blob s)
       = Inl (ConcurrentModificationError ''Failed to post message after max retries, please try again'')
     \<and> slept (snd (add_message_loop atts rid blob s)) = slept s @ map backoff atts"
proof (induction atts arbitrary: s)
  case Nil
  then show ?case by simp
next
  case (Cons a atts)
  obtain x s1 where g: "get_room rid s = (x, s1)" by (cases "get_room rid s")
  from Cons.prems g obtain r where x: "x = Some r" by (cases x) auto
  let ?room = "(if status r = SORTED then r\<lparr>status := MESSAGING\<rparr> else r)
                 \<lparr>messages := messages r @ [blob]\<rparr>"
  obtain ok s2 where u: "update_room_with_version ?room (version r) s1 = (ok, s2)"
    by (cases "update_room_with_version ?room (version r) s1")
  from Cons.prems g x u have v: "status r \<noteq> OPEN" "length (messages r) < length (sorted_keys r)"
      "\<not> ok"
    and rest: "message_attempts_lost rid blob atts (time_sleep (backoff a) s2)"
    by simp_all
  have body: "add_message_loop (a # atts) rid blob s
      = add_message_loop atts rid blob (time_sleep (backoff a) s2)"
    using g x v u by (cases "status r = SORTED") (simp_all add: Let_def backoff_def)
  have "slept (time_sleep (backoff a) s2) = slept s @ [backoff a]"
    using slept_get_room[OF g] slept_update[OF u] by (simp add: time_sleep_def)
  with Cons.IH[OF rest] show ?case unfolding body by simp
qed

lemma update_lost_iff:
  "get_room (id' room) s1 = (cur, s2) \<Longrightarrow>
   cur = None \<or> (\<exists>c. cur = Some c \<and> version c \<noteq> ev) \<Longrightarrow>
   update_room_with_version room ev s1 = (False, s2)"
  by (auto simp: update_room_with_version_def)

lemma backoff_values:
  "map backoff [0..<MAX_RETRIES]
     = [TrueDiv 50 1000, TrueDiv 100 1000, TrueDiv 200 1000, TrueDiv 400 1000, TrueDiv 800 1000]"
  by (simp add: upt_MAX_RETRIES backoff_def RETRY_DELAY_MS_def)

lemmas eval_defs = get_room_unfold update_room_with_version_def yield_def
  sys_three_def sys_sorted_def store_def sys_new_def room_three_def room_sorted_def room_new_def
  room_seven_def room_messaging_def room_four_def
  other_client_registers_def other_client_posts_def other_registers_def
  loop_heads rooms_dict_setitem_def
  time_sleep_def backoff_def timedelta_seconds_def ROOM_TTL_SECONDS_def RETRY_DELAY_MS_def
  upt_MAX_RETRIES Let_def

lemma busy_register_lost:
  "register_attempts_lost ''r1'' ''keyA'' [0..<MAX_RETRIES] sys_busy_register"
  by (simp add: sys_busy_register_def eval_defs)

lemma busy_message_lost:
  "message_attempts_lost ''r1'' ''mA'' [0..<MAX_RETRIES] sys_busy_message"
  by (simp add: sys_busy_message_def eval_defs)

lemma race_read:
  "get_room ''r1'' sys_race = (Some room_three, sys_three\<lparr>pending := [other_registers]\<rparr>)"
  by (simp add: get_room_unfold sys_race_def yield_def sys_three_facts ttl_nonneg)

lemma race_check:
  "get_room (id' room_three) (sys_three\<lparr>pending := [other_registers]\<rparr>)
     = (Some room_four, store ''r1'' room_four sys_new)"
  by (simp add: eval_defs)

lemma message_race_read:
  "get_room ''r1'' sys_message_race
     = (Some room_sorted, sys_sorted\<lparr>pending := [other_client_posts ''r1'' ''m1'']\<rparr>)"
  by (simp add: sys_message_race_def eval_defs)

lemma message_race_check:
  "get_room (id' room_sorted) (sys_sorted\<lparr>pending := [other_client_posts ''r1'' ''m1'']\<rparr>)
     = (Some room_messaging, sys_messaging)"
  by (simp add: sys_messaging_def eval_defs)

lemma message_race_retry:
  "add_message_loop [1, 2, 3, 4] ''r1'' ''mA'' (time_sleep (backoff 0) sys_messaging)
     = (Inr (), time_sleep (TrueDiv 50 1000)
                  (store ''r1'' (room_messaging\<lparr>messages := [''m1'', ''mA''], version := 6\<rparr>) sys_new))"
  by (simp add: sys_messaging_def eval_defs)

subsection \<open>The claims\<close>

text \<open>
  C10: whatever the stored chair secret hash, the access gate refuses an empty and an absent
  secret; it does so also when the stored hash is the hash of the empty string.
\<close>

theorem verify_chair_rejects_falsy:
  "verify_chair H room (Some '''') = False
   \<and> verify_chair H room None = False
   \<and> verify_chair H (room\<lparr>chair_secret_hash := H ''''\<rparr>) (Some '''') = False"
  by (simp add: verify_chair_def)

text \<open>
  C6: a client that runs alone and reads a room whose creation is more than the thirty days
  of \<^verbatim>\<open>ROOM_TTL_SECONDS\<close> back gets \<open>None\<close> from \<^verbatim>\<open>RoomStore.get_room\<close>, which the route
  reports as 404; the read removes the record, and every later read of the same identity,
  at any time, gets \<open>None\<close> and 404 again.
\<close>

theorem expired_room_is_gone:
  assumes "pending s = []" "rooms_dict (world s) room_id = Some room"
    "expired (utcnow (world s)) room"
  shows "get_room room_id s = (None, evict room_id s)
       \<and> rooms_dict (world (evict room_id s)) room_id = None
       \<and> fst (get_room_route room_id s) = HTTPException 404 ''Room not found''
       \<and> (\<forall>t. get_room room_id (set_clock t (evict room_id s)) = (None, set_clock t (evict room_id s)))
       \<and> (\<forall>t. fst (get_room_route room_id (set_clock t (evict room_id s)))
               = HTTPException 404 ''Room not found'')"
  using assms
  by (simp add: get_room_expired get_room_absent get_room_route_def evict_simps set_clock_simps)

theorem expired_room_is_gone_witness:
  "pending sys_old = [] \<and> rooms_dict (world sys_old) ''r1'' = Some room_new
   \<and> expired (utcnow (world sys_old)) room_new
   \<and> get_room ''r1'' sys_old = (None, evict ''r1'' sys_old)
   \<and> get_room ''r1'' (set_clock 5 (evict ''r1'' sys_old)) = (None, set_clock 5 (evict ''r1'' sys_old))"
proof -
  have h: "pending sys_old = []" "rooms_dict (world sys_old) ''r1'' = Some room_new"
    "expired (utcnow (world sys_old)) room_new"
    by (simp_all add: sys_old_def sys_new_def room_new_def set_clock_def
          timedelta_seconds_def ROOM_TTL_SECONDS_def)
  from expired_room_is_gone[OF h] h show ?thesis by simp
qed

text \<open>
  C4: \<^verbatim>\<open>set_sorted_keys\<close> with fewer than three keys raises a \<^verbatim>\<open>ValueError\<close> in every state
  of the system, whatever the other clients do. For a client that runs alone on an existing,
  unexpired room the error is the one of the status check or the one of the minimum, nothing
  is changed, and the number of participants plays no part.
\<close>

theorem set_sorted_keys_needs_three:
  assumes "length keys < 3"
  shows "(\<exists>m. fst (set_sorted_keys room_id keys s) = Inl (ValueError m))
       \<and> (pending s = [] \<longrightarrow> rooms_dict (world s) room_id = Some room
            \<longrightarrow> \<not> expired (utcnow (world s)) room \<longrightarrow>
            set_sorted_keys room_id keys s =
              (Inl (ValueError (if status room \<noteq> OPEN then ''Room is not in OPEN state''
                                else ''Minimum 3 participants required'')), s))"
proof -
  obtain x s1 where g: "get_room room_id s = (x, s1)" by (cases "get_room room_id s")
  have "\<exists>m. fst (set_sorted_keys room_id keys s) = Inl (ValueError m)"
    using assms g by (cases x) (simp_all add: set_sorted_keys_def)
  moreover have "set_sorted_keys room_id keys s =
              (Inl (ValueError (if status room \<noteq> OPEN then ''Room is not in OPEN state''
                                else ''Minimum 3 participants required'')), s)"
    if "pending s = []" "rooms_dict (world s) room_id = Some room" "\<not> expired (utcnow (world s)) room"
    using assms get_room_live[OF that] by (simp add: set_sorted_keys_def)
  ultimately show ?thesis by blast
qed

theorem set_sorted_keys_needs_three_witness:
  "length [''a'', ''b''] < 3 \<and> pending sys_new = [] \<and> rooms_dict (world sys_new) ''r1'' = Some room_new
   \<and> \<not> expired (utcnow (world sys_new)) room_new \<and> participants room_new = []
   \<and> set_sorted_keys ''r1'' [''a'', ''b''] sys_new
       = (Inl (ValueError ''Minimum 3 participants required''), sys_new)"
proof -
  have h: "length [''a'', ''b''] < 3" by simp
  have k: "pending sys_new = []" "rooms_dict (world sys_new) ''r1'' = Some room_new"
    "\<not> expired (utcnow (world sys_new)) room_new" "participants room_new = []" "status room_new = OPEN"
    by (simp_all add: sys_new_def room_new_def timedelta_seconds_def ROOM_TTL_SECONDS_def)
  from set_sorted_keys_needs_three[OF h, of "''r1''" sys_new room_new] k h show ?thesis by simp
qed

text \<open>
  C5, as the code has it: a client that runs alone and posts to an existing, unexpired room
  whose messages are as many as its sorted keys gets a \<^verbatim>\<open>ValueError\<close> and changes
  nothing. The error is the one of slot exhaustion when the room is \<open>SORTED\<close> or
  \<open>MESSAGING\<close>; an \<open>OPEN\<close> room is refused by the status check, which comes first.
\<close>

theorem add_message_no_free_slot:
  assumes "pending s = []" "rooms_dict (world s) room_id = Some room"
    "\<not> expired (utcnow (world s)) room"
    "length (messages room) = length (sorted_keys room)"
  shows "add_message room_id blob s =
     (Inl (ValueError (if status room = OPEN then ''Cannot send messages before sorting''
                       else ''All participants have already submitted their addresses'')), s)"
  using assms by (simp add: add_message_def upt_MAX_RETRIES get_room_live)

theorem add_message_no_free_slot_witness:
  "pending sys_full = [] \<and> rooms_dict (world sys_full) ''r1'' = Some room_full
   \<and> \<not> expired (utcnow (world sys_full)) room_full
   \<and> length (messages room_full) = length (sorted_keys room_full)
   \<and> add_message ''r1'' ''m4'' sys_full
      = (Inl (ValueError ''All participants have already submitted their addresses''), sys_full)"
proof -
  have k: "pending sys_full = []" "rooms_dict (world sys_full) ''r1'' = Some room_full"
    "\<not> expired (utcnow (world sys_full)) room_full"
    "length (messages room_full) = length (sorted_keys room_full)" "status room_full = MESSAGING"
    by (simp_all add: sys_full_def room_full_def store_def sys_new_def room_new_def
          timedelta_seconds_def ROOM_TTL_SECONDS_def)
  from add_message_no_free_slot[OF k(1-4), of "''m4''"] k show ?thesis by simp
qed

text \<open>
  C5 as the specification states it fails on every new room: it has no message and no
  sorted key, and posting to it raises the error of the status check, not the one of slot
  exhaustion.
\<close>

theorem add_message_open_room_counterexample:
  "rooms_dict (world sys_new) ''r1'' = Some room_new
   \<and> length (messages room_new) = length (sorted_keys room_new)
   \<and> fst (add_message ''r1'' ''blob'' sys_new) = Inl (ValueError ''Cannot send messages before sorting'')
   \<and> fst (add_message ''r1'' ''blob'' sys_new)
       \<noteq> Inl (ValueError ''All participants have already submitted their addresses'')"
proof -
  have k: "pending sys_new = []" "rooms_dict (world sys_new) ''r1'' = Some room_new"
    "\<not> expired (utcnow (world sys_new)) room_new" "status room_new = OPEN"
    "messages room_new = []" "sorted_keys room_new = []"
    by (simp_all add: sys_new_def room_new_def timedelta_seconds_def ROOM_TTL_SECONDS_def)
  then show ?thesis by (simp add: add_message_def upt_MAX_RETRIES get_room_live)
qed

text \<open>
  C3: in an existing, unexpired \<open>OPEN\<close> room stored under its own id, the first
  registration of a key by a client that runs alone succeeds and writes the room with the
  key appended; registering the same key again, at any later time at which the room is
  still alive, raises the \<^verbatim>\<open>ValueError\<close> of a duplicate registration and changes nothing.
  And in every state the service reaches, while the other clients keep the participants of
  the stored rooms free of duplicates, no stored room has a duplicate participant.
\<close>

theorem register_twice:
  assumes "pending s = []" "rooms_dict (world s) room_id = Some room" "id' room = room_id"
    "\<not> expired (utcnow (world s)) room" "status room = OPEN" "k \<notin> set (participants room)"
  shows "add_participant room_id k s =
           (Inr (), store room_id (room\<lparr>participants := participants room @ [k],
                                       version := version room + 1\<rparr>) s)
       \<and> (\<forall>t. \<not> expired t room \<longrightarrow>
            add_participant room_id k
              (set_clock t (store room_id (room\<lparr>participants := participants room @ [k],
                                                version := version room + 1\<rparr>) s))
            = (Inl (ValueError ''Duplicate registration''),
               set_clock t (store room_id (room\<lparr>participants := participants room @ [k],
                                                 version := version room + 1\<rparr>) s)))
       \<and> (\<forall>H s' key r. reachable H (keeps distinct_participants) s' \<longrightarrow>
             rooms_dict (world s') key = Some r \<longrightarrow> distinct (participants r))"
proof -
  let ?room = "room\<lparr>participants := participants room @ [k], version := version room + 1\<rparr>"
  have first: "add_participant room_id k s = (Inr (), store room_id ?room s)"
    using assms by (rule add_participant_alone)
  have second: "add_participant room_id k (set_clock t (store room_id ?room s))
            = (Inl (ValueError ''Duplicate registration''), set_clock t (store room_id ?room s))"
    if "\<not> expired t room" for t
  proof -
    have "get_room room_id (set_clock t (store room_id ?room s))
            = (Some ?room, set_clock t (store room_id ?room s))"
      using assms that by (intro get_room_live) (simp_all add: set_clock_simps store_simps)
    then show ?thesis using assms by (simp add: loop_heads)
  qed
  have inv: "distinct (participants r)"
    if "reachable H (keeps distinct_participants) s'" "rooms_dict (world s') key = Some r"
    for H s' key r
  proof -
    have "sys_ok distinct_participants s'"
      by (rule reachable_ok[OF _ _ _ _ that(1)]) (simp_all add: distinct_participants_def)
    from sys_ok_lookup[OF this that(2)] show ?thesis by (simp add: distinct_participants_def)
  qed
  from first second inv show ?thesis by blast
qed

theorem register_twice_witness:
  "pending sys_new = [] \<and> rooms_dict (world sys_new) ''r1'' = Some room_new \<and> id' room_new = ''r1''
   \<and> \<not> expired (utcnow (world sys_new)) room_new \<and> status room_new = OPEN
   \<and> ''key'' \<notin> set (participants room_new) \<and> \<not> expired 2000 room_new
   \<and> add_participant ''r1'' ''key'' sys_new = (Inr (), sys_one)
   \<and> add_participant ''r1'' ''key'' (set_clock 2000 sys_one)
       = (Inl (ValueError ''Duplicate registration''), set_clock 2000 sys_one)
   \<and> reachable example_hash (keeps distinct_participants) sys_three
   \<and> rooms_dict (world sys_three) ''r1'' = Some room_three
   \<and> distinct (participants room_three)"
proof -
  have k: "pending sys_new = []" "rooms_dict (world sys_new) ''r1'' = Some room_new"
    "id' room_new = ''r1''" "\<not> expired (utcnow (world sys_new)) room_new" "status room_new = OPEN"
    "''key'' \<notin> set (participants room_new)"
    by (simp_all add: sys_new_def room_new_def ttl_nonneg)
  have t: "\<not> expired 2000 room_new"
    by (simp add: room_new_def timedelta_seconds_def ROOM_TTL_SECONDS_def)
  have e: "store ''r1'' (room_new\<lparr>participants := participants room_new @ [''key''],
             version := version room_new + 1\<rparr>) sys_new = sys_one"
    by (simp add: sys_one_def room_new_def)
  have r: "reachable example_hash (keeps distinct_participants) sys_three"
    "rooms_dict (world sys_three) ''r1'' = Some room_three"
    by (simp_all add: reachable_sys_three sys_three_def sys_new_live)
  from register_twice[OF k] k t r show ?thesis unfolding e by blast
qed

text \<open>
  C7: the first post to an existing, unexpired \<open>SORTED\<close> room with a free slot, by a client
  that runs alone, succeeds with a single write of the room, which carries the status
  \<open>MESSAGING\<close> and the message appended. And in every state the service reaches, while the
  other clients store messages only in rooms that are \<open>MESSAGING\<close>, a stored room that is
  \<open>SORTED\<close> has no message.
\<close>

theorem first_message_starts_messaging:
  assumes "pending s = []" "rooms_dict (world s) room_id = Some room" "id' room = room_id"
    "\<not> expired (utcnow (world s)) room" "status room = SORTED"
    "length (messages room) < length (sorted_keys room)"
  shows "add_message room_id blob s =
           (Inr (), store room_id (room\<lparr>status := MESSAGING, messages := messages room @ [blob],
                                       version := version room + 1\<rparr>) s)
       \<and> (\<forall>H s' key r. reachable H (keeps messages_only_when_messaging) s' \<longrightarrow>
             rooms_dict (world s') key = Some r \<longrightarrow> status r = SORTED \<longrightarrow> messages r = [])"
proof -
  have first: "add_message room_id blob s =
           (Inr (), store room_id (room\<lparr>status := MESSAGING, messages := messages room @ [blob],
                                       version := version room + 1\<rparr>) s)"
    using assms by (intro add_message_alone) simp_all
  have inv: "messages r = []"
    if "reachable H (keeps messages_only_when_messaging) s'" "rooms_dict (world s') key = Some r"
      "status r = SORTED"
    for H s' key r
  proof -
    have "sys_ok messages_only_when_messaging s'"
      by (rule reachable_ok[OF _ _ _ _ that(1)]) (simp_all add: messages_only_when_messaging_def)
    from sys_ok_lookup[OF this that(2)] that(3) show ?thesis
      by (simp add: messages_only_when_messaging_def)
  qed
  from first inv show ?thesis by blast
qed

theorem first_message_starts_messaging_witness:
  "pending sys_sorted = [] \<and> rooms_dict (world sys_sorted) ''r1'' = Some room_sorted
   \<and> id' room_sorted = ''r1'' \<and> \<not> expired (utcnow (world sys_sorted)) room_sorted
   \<and> status room_sorted = SORTED \<and> length (messages room_sorted) < length (sorted_keys room_sorted)
   \<and> add_message ''r1'' ''m1'' sys_sorted = (Inr (), sys_messaging)
   \<and> rooms_dict (world sys_messaging) ''r1'' = Some room_messaging
   \<and> status room_messaging = MESSAGING \<and> messages room_messaging = [''m1'']
   \<and> reachable example_hash (keeps messages_only_when_messaging) sys_sorted
   \<and> messages room_sorted = []"
proof -
  have k: "pending sys_sorted = []" "rooms_dict (world sys_sorted) ''r1'' = Some room_sorted"
    "id' room_sorted = ''r1''" "\<not> expired (utcnow (world sys_sorted)) room_sorted"
    "status room_sorted = SORTED" "length (messages room_sorted) < length (sorted_keys room_sorted)"
    by (simp_all add: sys_sorted_def sys_new_live, simp_all add: room_sorted_def room_three_def room_new_def ttl_nonneg)
  have e: "store ''r1'' (room_sorted\<lparr>status := MESSAGING, messages := messages room_sorted @ [''m1''],
             version := version room_sorted + 1\<rparr>) sys_sorted = sys_messaging"
    by (simp add: sys_messaging_def sys_sorted_def store_store room_messaging_def room_sorted_def
          room_three_def room_new_def)
  have m: "rooms_dict (world sys_messaging) ''r1'' = Some room_messaging"
    "status room_messaging = MESSAGING" "messages room_messaging = [''m1'']"
    by (simp_all add: sys_messaging_def sys_new_live room_messaging_def)
  have r: "reachable example_hash (keeps messages_only_when_messaging) sys_sorted"
    by (simp add: sys_sorted_def reachable_sys_sorted)
  from first_message_starts_messaging[OF k, of "''m1''"] k m r show ?thesis unfolding e by blast
qed

text \<open>
  C1 says that an accepted write never lowers the stored version. In
  \<^verbatim>\<open>_update_room_with_version\<close> the version check and the write are two accesses to the
  dictionary, so the code accepts a write on a check that is no longer true: here the first
  client reads version 3 and finds version 3 again at its check, the two other clients then
  bring the stored version to 5, and the first client's write, which \<^verbatim>\<open>add_participant\<close>
  reports as a success, stores version 4 over it and drops the two other keys.
\<close>

theorem lost_update_lowers_version:
  "get_room ''r1'' sys_lost_update = (Some room_three, sys_read)
   \<and> get_room (id' room_three) sys_read = (Some room_three, sys_checked)
   \<and> rooms_dict (world (yield sys_checked)) ''r1'' = Some room_others
   \<and> add_participant ''r1'' ''keyA'' sys_lost_update
       = (Inr (), store ''r1'' room_lost (yield sys_checked))
   \<and> rooms_dict (world (store ''r1'' room_lost (yield sys_checked))) ''r1'' = Some room_lost
   \<and> version room_three = 3 \<and> version room_others = 5 \<and> version room_lost = 4
   \<and> participants room_others = [''key'', ''key2'', ''key3'', ''keyB'', ''keyC'']
   \<and> participants room_lost = [''key'', ''key2'', ''key3'', ''keyA'']"
proof -
  have u: "update_room_with_version (room_three\<lparr>participants := participants room_three @ [''keyA'']\<rparr>)
             (version room_three) sys_read
           = (True, store ''r1'' room_lost (yield sys_checked))"
  proof -
    have e: "room_three\<lparr>participants := participants room_three @ [''keyA''],
                         version := 4\<rparr> = room_lost"
      by (simp add: room_lost_def room_three_def)
    show ?thesis
      using lost_update_check
      by (simp add: update_room_with_version_def rooms_dict_setitem_store sys_three_facts(4,8) e)
  qed
  have a: "add_participant ''r1'' ''keyA'' sys_lost_update
       = (Inr (), store ''r1'' room_lost (yield sys_checked))"
    using lost_update_read u by (simp add: loop_heads sys_three_facts)
  have b: "get_room (id' room_three) sys_read = (Some room_three, sys_checked)"
    using lost_update_check by (simp add: sys_three_facts(4))
  have c: "rooms_dict (world (yield sys_checked)) ''r1'' = Some room_others"
    "rooms_dict (world (store ''r1'' room_lost (yield sys_checked))) ''r1'' = Some room_lost"
    by (simp_all add: lost_update_before_write store_simps)
  have v: "version room_three = 3" "version room_others = 5" "version room_lost = 4"
    "participants room_others = [''key'', ''key2'', ''key3'', ''keyB'', ''keyC'']"
    "participants room_lost = [''key'', ''key2'', ''key3'', ''keyA'']"
    by (simp_all add: room_others_def room_lost_def room_three_def)
  from lost_update_read b c a v show ?thesis by blast
qed

text \<open>
  C2, as the code has it: when the read that opens an attempt of a mutating operation (any
  of the attempts of \<^verbatim>\<open>add_participant\<close> and \<^verbatim>\<open>add_message\<close>, the only one of
  \<^verbatim>\<open>set_sorted_keys\<close>) finds no room, which \<^verbatim>\<open>get_room\<close> reports for a missing and for an
  expired record, the operation raises \<^verbatim>\<open>ValueError\<close> with the message
  \<^verbatim>\<open>Room <id> not found\<close> at once: the state is the one that read left and nothing more is
  slept. The routes \<^verbatim>\<open>register\<close> and \<^verbatim>\<open>post_message\<close> answer 400 with that message, as
  they do for every validation error; \<^verbatim>\<open>sort_keys\<close> answers 404 when its own read finds no
  room. When it is the read of the version check that finds no room, \<^verbatim>\<open>set_sorted_keys\<close>
  raises \<^verbatim>\<open>ConcurrentModificationError\<close>, and \<^verbatim>\<open>add_participant\<close> and \<^verbatim>\<open>add_message\<close>
  sleep and go on with the attempts that are left.
\<close>

theorem not_found_is_value_error:
  assumes "get_room room_id s = (None, s1)"
  shows "add_participant_loop (attempt # rest) room_id k s
           = (Inl (ValueError (''Room '' @ room_id @ '' not found'')), s1)
       \<and> add_message_loop (attempt # rest) room_id blob s
           = (Inl (ValueError (''Room '' @ room_id @ '' not found'')), s1)
       \<and> set_sorted_keys room_id keys s = (Inl (ValueError (''Room '' @ room_id @ '' not found'')), s1)
       \<and> add_participant room_id k s = (Inl (ValueError (''Room '' @ room_id @ '' not found'')), s1)
       \<and> add_message room_id blob s = (Inl (ValueError (''Room '' @ room_id @ '' not found'')), s1)
       \<and> register room_id k s = (HTTPException 400 (''Room '' @ room_id @ '' not found''), s1)
       \<and> post_message room_id blob s = (HTTPException 400 (''Room '' @ room_id @ '' not found''), s1)
       \<and> sort_keys H room_id keys secret s = (HTTPException 404 ''Room not found'', s1)
       \<and> slept s1 = slept s
       \<and> (pending s = [] \<longrightarrow> s1 = evict room_id s)
       \<and> (\<forall>t room t1 t2.
             get_room room_id t = (Some room, t1) \<longrightarrow> status room = OPEN \<longrightarrow>
             k \<notin> set (participants room) \<longrightarrow> get_room (id' room) t1 = (None, t2) \<longrightarrow>
             add_participant_loop (attempt # rest) room_id k t
               = add_participant_loop rest room_id k
                   (time_sleep (TrueDiv (RETRY_DELAY_MS * 2 ^ attempt) 1000) t2))
       \<and> (\<forall>t room t1 t2.
             get_room room_id t = (Some room, t1) \<longrightarrow> status room \<noteq> OPEN \<longrightarrow>
             length (messages room) < length (sorted_keys room) \<longrightarrow>
             get_room (id' room) t1 = (None, t2) \<longrightarrow>
             add_message_loop (attempt # rest) room_id blob t
               = add_message_loop rest room_id blob
                   (time_sleep (TrueDiv (RETRY_DELAY_MS * 2 ^ attempt) 1000) t2))
       \<and> (\<forall>t room t1 t2.
             get_room room_id t = (Some room, t1) \<longrightarrow> status room = OPEN \<longrightarrow>
             3 \<le> length keys \<longrightarrow> length keys = length (participants room) \<longrightarrow>
             distinct keys \<longrightarrow> get_room (id' room) t1 = (None, t2) \<longrightarrow>
             set_sorted_keys room_id keys t
               = (Inl (ConcurrentModificationError ''Room was modified during sorting''), t2))"
proof -
  let ?nf = "Inl (ValueError (''Room '' @ room_id @ '' not found'')) :: error + unit"
  have a: "add_participant_loop (attempt # rest) room_id k s = (?nf, s1)" for attempt rest
    using assms by simp
  have b: "add_message_loop (attempt # rest) room_id blob s = (?nf, s1)" for attempt rest
    using assms by simp
  have c: "set_sorted_keys room_id keys s = (?nf, s1)"
    using assms by (simp add: set_sorted_keys_def)
  have a0: "add_participant room_id k s = (?nf, s1)" unfolding loop_heads by (rule a)
  have b0: "add_message room_id blob s = (?nf, s1)" unfolding loop_heads by (rule b)
  have r: "register room_id k s = (HTTPException 400 (''Room '' @ room_id @ '' not found''), s1)"
    "post_message room_id blob s = (HTTPException 400 (''Room '' @ room_id @ '' not found''), s1)"
    "sort_keys H room_id keys secret s = (HTTPException 404 ''Room not found'', s1)"
    using a0 b0 assms by (simp_all add: register_def post_message_def sort_keys_def)
  have d: "s1 = evict room_id s" if "pending s = []"
    using get_room_cases[OF assms] that
    by (auto simp: yield_idle evict_def fun_upd_idem split: if_splits)
  have lost: "update_room_with_version r' ev t1 = (False, t2)"
    if "get_room (id' r') t1 = (None, t2)" for r' ev t1 t2
    using that by (simp add: update_room_with_version_def)
  have e: "add_participant_loop (attempt # rest) room_id k t
               = add_participant_loop rest room_id k
                   (time_sleep (TrueDiv (RETRY_DELAY_MS * 2 ^ attempt) 1000) t2)"
    if "get_room room_id t = (Some room, t1)" "status room = OPEN"
      "k \<notin> set (participants room)" "get_room (id' room) t1 = (None, t2)" for t room t1 t2
    using that lost[of "room\<lparr>participants := participants room @ [k]\<rparr>" t1 t2 "version room"]
    by (simp add: Let_def)
  have f: "add_message_loop (attempt # rest) room_id blob t
               = add_message_loop rest room_id blob
                   (time_sleep (TrueDiv (RETRY_DELAY_MS * 2 ^ attempt) 1000) t2)"
    if "get_room room_id t = (Some room, t1)" "status room \<noteq> OPEN"
      "length (messages room) < length (sorted_keys room)"
      "get_room (id' room) t1 = (None, t2)" for t room t1 t2
  proof (cases "status room = SORTED")
    case True
    with that lost[of "room\<lparr>status := MESSAGING, messages := messages room @ [blob]\<rparr>" t1 t2
                      "version room"]
    show ?thesis by (simp add: Let_def)
  next
    case False
    with that lost[of "room\<lparr>messages := messages room @ [blob]\<rparr>" t1 t2 "version room"]
    show ?thesis by (simp add: Let_def)
  qed
  have g: "set_sorted_keys room_id keys t
               = (Inl (ConcurrentModificationError ''Room was modified during sorting''), t2)"
    if "get_room room_id t = (Some room, t1)" "status room = OPEN" "3 \<le> length keys"
      "length keys = length (participants room)" "distinct keys"
      "get_room (id' room) t1 = (None, t2)" for t room t1 t2
    using that lost[of "room\<lparr>sorted_keys := keys, status := SORTED\<rparr>" t1 t2 "version room"]
    by (simp add: set_sorted_keys_def Let_def distinct_card)
  from a b c a0 b0 r d e f g slept_get_room[OF assms] show ?thesis by blast
qed

theorem not_found_is_value_error_witness:
  "get_room ''r1'' sys_empty = (None, sys_empty)
   \<and> register ''r1'' ''key'' sys_empty = (HTTPException 400 ''Room r1 not found'', sys_empty)
   \<and> get_room ''r1'' sys_old = (None, evict ''r1'' sys_old) \<and> pending sys_old = []
   \<and> post_message ''r1'' ''m1'' sys_old = (HTTPException 400 ''Room r1 not found'', evict ''r1'' sys_old)
   \<and> get_room ''r1'' sys_expiring = (Some room_new, sys_new\<lparr>pending := [clock_passes]\<rparr>)
   \<and> status room_new = OPEN \<and> ''key'' \<notin> set (participants room_new)
   \<and> get_room (id' room_new) (sys_new\<lparr>pending := [clock_passes]\<rparr>) = (None, evict ''r1'' sys_old)
   \<and> add_participant ''r1'' ''key'' sys_expiring
       = (Inl (ValueError ''Room r1 not found''), time_sleep (TrueDiv 50 1000) (evict ''r1'' sys_old))
   \<and> get_room ''r1'' sys_three_expiring = (Some room_three, sys_three\<lparr>pending := [clock_passes]\<rparr>)
   \<and> get_room (id' room_three) (sys_three\<lparr>pending := [clock_passes]\<rparr>) = (None, evict ''r1'' sys_old)
   \<and> set_sorted_keys ''r1'' [''k1'', ''k2'', ''k3''] sys_three_expiring
       = (Inl (ConcurrentModificationError ''Room was modified during sorting''), evict ''r1'' sys_old)"
proof -
  have e: "get_room ''r1'' sys_empty = (None, sys_empty)"
    by (simp add: get_room_absent sys_empty_def)
  have o: "get_room ''r1'' sys_old = (None, evict ''r1'' sys_old)"
    by (rule get_room_expired[where r = room_new])
       (simp_all add: sys_old_def sys_new_def room_new_def set_clock_def
          timedelta_seconds_def ROOM_TTL_SECONDS_def)
  have p: "pending sys_old = []" by (simp add: sys_old_def set_clock_def sys_new_def)
  have k: "status room_new = OPEN" "''key'' \<notin> set (participants room_new)"
    by (simp_all add: sys_new_facts)
  have c1: "get_room (id' room_new) (sys_new\<lparr>pending := [clock_passes]\<rparr>) = (None, evict ''r1'' sys_old)"
    using expiring_check by (simp add: sys_new_facts)
  have c3: "get_room (id' room_three) (sys_three\<lparr>pending := [clock_passes]\<rparr>) = (None, evict ''r1'' sys_old)"
    using three_expiring_check by (simp add: sys_three_facts)
  have k3: "status room_three = OPEN" "3 \<le> length [''k1'', ''k2'', ''k3'']"
    "length [''k1'', ''k2'', ''k3''] = length (participants room_three)"
    "distinct [''k1'', ''k2'', ''k3'']"
    by (simp_all add: sys_three_facts)
  note first = not_found_is_value_error[OF e, where k = "''key''"]
  note old = not_found_is_value_error[OF o, where blob = "''m1''"]
  note later = not_found_is_value_error[OF gone_read[of "TrueDiv 50 1000"],
      where attempt = 1 and rest = "[2, 3, 4]" and k = "''key''"]
  note check = not_found_is_value_error[OF e, where attempt = 0 and rest = "[1, 2, 3, 4]"
      and k = "''key''" and keys = "[''k1'', ''k2'', ''k3'']"]
  have r1: "register ''r1'' ''key'' sys_empty = (HTTPException 400 ''Room r1 not found'', sys_empty)"
    using first by simp
  have r2: "post_message ''r1'' ''m1'' sys_old = (HTTPException 400 ''Room r1 not found'', evict ''r1'' sys_old)"
    using old by simp
  have "add_participant_loop (0 # [1, 2, 3, 4]) ''r1'' ''key'' sys_expiring
        = add_participant_loop [1, 2, 3, 4] ''r1'' ''key''
            (time_sleep (TrueDiv (RETRY_DELAY_MS * 2 ^ 0) 1000) (evict ''r1'' sys_old))"
    using check expiring_read k c1 by blast
  moreover have "add_participant_loop (1 # [2, 3, 4]) ''r1'' ''key''
            (time_sleep (TrueDiv 50 1000) (evict ''r1'' sys_old))
        = (Inl (ValueError ''Room r1 not found''), time_sleep (TrueDiv 50 1000) (evict ''r1'' sys_old))"
    using later by simp
  ultimately have r3: "add_participant ''r1'' ''key'' sys_expiring
       = (Inl (ValueError ''Room r1 not found''), time_sleep (TrueDiv 50 1000) (evict ''r1'' sys_old))"
    by (simp add: loop_heads RETRY_DELAY_MS_def)
  have r4: "set_sorted_keys ''r1'' [''k1'', ''k2'', ''k3''] sys_three_expiring
       = (Inl (ConcurrentModificationError ''Room was modified during sorting''), evict ''r1'' sys_old)"
    using check three_expiring_read k3 c3 by blast
  from e r1 o p r2 expiring_read k c1 r3 three_expiring_read c3 r4 show ?thesis by blast
qed

text \<open>
  C2 as the specification states it asks for an outcome distinct from a validation error.
  Registering in a room that does not exist and registering a key twice raise the same
  exception class and get the same status 400; only the read routes answer 404.
\<close>

theorem register_not_found_counterexample:
  "fst (add_participant ''r1'' ''key'' sys_empty) = Inl (ValueError ''Room r1 not found'')
   \<and> fst (add_participant ''r1'' ''key'' sys_one) = Inl (ValueError ''Duplicate registration'')
   \<and> status_code (fst (register ''r1'' ''key'' sys_empty)) = 400
   \<and> status_code (fst (register ''r1'' ''key'' sys_one)) = 400
   \<and> status_code (fst (get_participants ''r1'' sys_empty)) = 404"
proof -
  have e: "get_room ''r1'' sys_empty = (None, sys_empty)"
    by (simp add: get_room_absent sys_empty_def)
  have o: "get_room ''r1'' sys_one = (Some (room_new\<lparr>participants := [''key''], version := 1\<rparr>), sys_one)"
    by (rule get_room_live)
       (simp_all add: sys_one_def store_def sys_new_def room_new_def
          timedelta_seconds_def ROOM_TTL_SECONDS_def)
  show ?thesis using e o
    by (simp add: register_def get_participants_def loop_heads room_new_def)
qed

text \<open>
  C8: when \<^verbatim>\<open>set_sorted_keys\<close> has read a room that passes its checks and the version check
  then finds the room gone or with another version, it raises
  \<^verbatim>\<open>ConcurrentModificationError\<close> in the state that this one check left, without having
  slept; it never sleeps. \<^verbatim>\<open>add_participant\<close> and \<^verbatim>\<open>add_message\<close> differ: an attempt of theirs
  that loses the same race is followed by a sleep of \<^verbatim>\<open>RETRY_DELAY_MS * 2 ** attempt / 1000\<close>
  seconds and by the next attempt, made in the state the sleep left; when all
  \<^verbatim>\<open>MAX_RETRIES\<close> attempts are lost they raise \<^verbatim>\<open>ConcurrentModificationError\<close> after having
  slept the five delays 50/1000, 100/1000, 200/1000, 400/1000 and 800/1000; in every run they
  sleep the first \<open>n\<close> of these delays for some \<open>n \<le> MAX_RETRIES\<close>, and \<open>n = MAX_RETRIES\<close> when
  they raise \<^verbatim>\<open>ConcurrentModificationError\<close>. The delays are the floats of these quotients,
  kept as quotients.
\<close>

theorem set_sorted_keys_single_attempt:
  assumes "get_room room_id s = (Some room, s1)" "status room = OPEN" "3 \<le> length keys"
    "length keys = length (participants room)" "distinct keys"
    "get_room (id' room) s1 = (cur, s2)"
    "cur = None \<or> (\<exists>c. cur = Some c \<and> version c \<noteq> version room)"
  shows "set_sorted_keys room_id keys s
           = (Inl (ConcurrentModificationError ''Room was modified during sorting''), s2)
       \<and> slept s2 = slept s
       \<and> (\<forall>rid ks s0. slept (snd (set_sorted_keys rid ks s0)) = slept s0)
       \<and> (\<forall>rid k s0. \<exists>n\<le>MAX_RETRIES.
             slept (snd (add_participant rid k s0)) = slept s0 @ map backoff [0..<n]
             \<and> (\<forall>m. fst (add_participant rid k s0) = Inl (ConcurrentModificationError m)
                    \<longrightarrow> n = MAX_RETRIES))
       \<and> (\<forall>rid blob s0. \<exists>n\<le>MAX_RETRIES.
             slept (snd (add_message rid blob s0)) = slept s0 @ map backoff [0..<n]
             \<and> (\<forall>m. fst (add_message rid blob s0) = Inl (ConcurrentModificationError m)
                    \<longrightarrow> n = MAX_RETRIES))
       \<and> (\<forall>attempt rest rid k t r t1 c t2.
             get_room rid t = (Some r, t1) \<longrightarrow> status r = OPEN \<longrightarrow> k \<notin> set (participants r) \<longrightarrow>
             get_room (id' r) t1 = (c, t2) \<longrightarrow>
             (c = None \<or> (\<exists>c'. c = Some c' \<and> version c' \<noteq> version r)) \<longrightarrow>
             add_participant_loop (attempt # rest) rid k t
               = add_participant_loop rest rid k (time_sleep (backoff attempt) t2))
       \<and> (\<forall>attempt rest rid blob t r t1 c t2.
             get_room rid t = (Some r, t1) \<longrightarrow> status r \<noteq> OPEN \<longrightarrow>
             length (messages r) < length (sorted_keys r) \<longrightarrow>
             get_room (id' r) t1 = (c, t2) \<longrightarrow>
             (c = None \<or> (\<exists>c'. c = Some c' \<and> version c' \<noteq> version r)) \<longrightarrow>
             add_message_loop (attempt # rest) rid blob t
               = add_message_loop rest rid blob (time_sleep (backoff attempt) t2))
       \<and> (\<forall>rid k s0. register_attempts_lost rid k [0..<MAX_RETRIES] s0 \<longrightarrow>
             fst (add_participant rid k s0)
               = Inl (ConcurrentModificationError
                        ''Failed to register after max retries, please try again'')
             \<and> slept (snd (add_participant rid k s0)) = slept s0 @ map backoff [0..<MAX_RETRIES])
       \<and> (\<forall>rid blob s0. message_attempts_lost rid blob [0..<MAX_RETRIES] s0 \<longrightarrow>
             fst (add_message rid blob s0)
               = Inl (ConcurrentModificationError
                        ''Failed to post message after max retries, please try again'')
             \<and> slept (snd (add_message rid blob s0)) = slept s0 @ map backoff [0..<MAX_RETRIES])
       \<and> map backoff [0..<MAX_RETRIES]
           = [TrueDiv 50 1000, TrueDiv 100 1000, TrueDiv 200 1000, TrueDiv 400 1000,
              TrueDiv 800 1000]"
proof -
  let ?room = "room\<lparr>sorted_keys := keys, status := SORTED\<rparr>"
  have u: "update_room_with_version ?room (version room) s1 = (False, s2)"
    using assms(6,7) by (intro update_lost_iff) simp_all
  have a: "set_sorted_keys room_id keys s
           = (Inl (ConcurrentModificationError ''Room was modified during sorting''), s2)"
    using assms(1-5) u by (simp add: set_sorted_keys_def distinct_card)
  have b: "slept s2 = slept s"
    using slept_get_room[OF assms(1)] slept_get_room[OF assms(6)] by simp
  have c: "\<exists>n\<le>MAX_RETRIES.
             slept (snd (add_participant rid k s0)) = slept s0 @ map backoff [0..<n]
             \<and> (\<forall>m. fst (add_participant rid k s0) = Inl (ConcurrentModificationError m)
                    \<longrightarrow> n = MAX_RETRIES)" for rid k s0
  proof -
    obtain res s' where r: "add_participant_loop [0..<MAX_RETRIES] rid k s0 = (res, s')"
      by (cases "add_participant_loop [0..<MAX_RETRIES] rid k s0")
    from add_participant_loop_slept[OF r] r show ?thesis
      by (auto simp: add_participant_def take_upt)
  qed
  have d: "\<exists>n\<le>MAX_RETRIES.
             slept (snd (add_message rid blob s0)) = slept s0 @ map backoff [0..<n]
             \<and> (\<forall>m. fst (add_message rid blob s0) = Inl (ConcurrentModificationError m)
                    \<longrightarrow> n = MAX_RETRIES)" for rid blob s0
  proof -
    obtain res s' where r: "add_message_loop [0..<MAX_RETRIES] rid blob s0 = (res, s')"
      by (cases "add_message_loop [0..<MAX_RETRIES] rid blob s0")
    from add_message_loop_slept[OF r] r show ?thesis
      by (auto simp: add_message_def take_upt)
  qed
  have e: "add_participant_loop (attempt # rest) rid k t
               = add_participant_loop rest rid k (time_sleep (backoff attempt) t2)"
    if "get_room rid t = (Some r, t1)" "status r = OPEN" "k \<notin> set (participants r)"
      "get_room (id' r) t1 = (c, t2)" "c = None \<or> (\<exists>c'. c = Some c' \<and> version c' \<noteq> version r)"
    for attempt rest rid k t r t1 c t2
  proof -
    have "update_room_with_version (r\<lparr>participants := participants r @ [k]\<rparr>) (version r) t1
            = (False, t2)"
      using that(4,5) by (intro update_lost_iff) simp_all
    with that(1-3) show ?thesis by (simp add: Let_def backoff_def)
  qed
  have f: "add_message_loop (attempt # rest) rid blob t
               = add_message_loop rest rid blob (time_sleep (backoff attempt) t2)"
    if "get_room rid t = (Some r, t1)" "status r \<noteq> OPEN"
      "length (messages r) < length (sorted_keys r)"
      "get_room (id' r) t1 = (c, t2)" "c = None \<or> (\<exists>c'. c = Some c' \<and> version c' \<noteq> version r)"
    for attempt rest rid blob t r t1 c t2
  proof (cases "status r = SORTED")
    case True
    have "update_room_with_version (r\<lparr>status := MESSAGING, messages := messages r @ [blob]\<rparr>)
            (version r) t1 = (False, t2)"
      using that(4,5) by (intro update_lost_iff) simp_all
    with that(1-3) True show ?thesis by (simp add: Let_def backoff_def)
  next
    case False
    have "update_room_with_version (r\<lparr>messages := messages r @ [blob]\<rparr>) (version r) t1
            = (False, t2)"
      using that(4,5) by (intro update_lost_iff) simp_all
    with that(1-3) False show ?thesis by (simp add: Let_def backoff_def)
  qed
  have g: "fst (add_participant rid k s0)
               = Inl (ConcurrentModificationError
                        ''Failed to register after max retries, please try again'')
             \<and> slept (snd (add_participant rid k s0)) = slept s0 @ map backoff [0..<MAX_RETRIES]"
    if "register_attempts_lost rid k [0..<MAX_RETRIES] s0" for rid k s0
    using register_all_lost[OF that] by (simp add: add_participant_def)
  have h: "fst (add_message rid blob s0)
               = Inl (ConcurrentModificationError
                        ''Failed to post message after max retries, please try again'')
             \<and> slept (snd (add_message rid blob s0)) = slept s0 @ map backoff [0..<MAX_RETRIES]"
    if "message_attempts_lost rid blob [0..<MAX_RETRIES] s0" for rid blob s0
    using message_all_lost[OF that] by (simp add: add_message_def)
  have S: "\<forall>rid ks s0. slept (snd (set_sorted_keys rid ks s0)) = slept s0"
    by (simp add: set_sorted_keys_slept)
  have C: "\<forall>rid k s0. \<exists>n\<le>MAX_RETRIES.
             slept (snd (add_participant rid k s0)) = slept s0 @ map backoff [0..<n]
             \<and> (\<forall>m. fst (add_participant rid k s0) = Inl (ConcurrentModificationError m)
                    \<longrightarrow> n = MAX_RETRIES)"
    using c by blast
  have D: "\<forall>rid blob s0. \<exists>n\<le>MAX_RETRIES.
             slept (snd (add_message rid blob s0)) = slept s0 @ map backoff [0..<n]
             \<and> (\<forall>m. fst (add_message rid blob s0) = Inl (ConcurrentModificationError m)
                    \<longrightarrow> n = MAX_RETRIES)"
    using d by blast
  have E: "\<forall>attempt rest rid k t r t1 c t2.
             get_room rid t = (Some r, t1) \<longrightarrow> status r = OPEN \<longrightarrow> k \<notin> set (participants r) \<longrightarrow>
             get_room (id' r) t1 = (c, t2) \<longrightarrow>
             (c = None \<or> (\<exists>c'. c = Some c' \<and> version c' \<noteq> version r)) \<longrightarrow>
             add_participant_loop (attempt # rest) rid k t
               = add_participant_loop rest rid k (time_sleep (backoff attempt) t2)"
    using e by blast
  have F: "\<forall>attempt rest rid blob t r t1 c t2.
             get_room rid t = (Some r, t1) \<longrightarrow> status r \<noteq> OPEN \<longrightarrow>
             length (messages r) < length (sorted_keys r) \<longrightarrow>
             get_room (id' r) t1 = (c, t2) \<longrightarrow>
             (c = None \<or> (\<exists>c'. c = Some c' \<and> version c' \<noteq> version r)) \<longrightarrow>
             add_message_loop (attempt # rest) rid blob t
               = add_message_loop rest rid blob (time_sleep (backoff attempt) t2)"
    using f by blast
  have G: "\<forall>rid k s0. register_attempts_lost rid k [0..<MAX_RETRIES] s0 \<longrightarrow>
             fst (add_participant rid k s0)
               = Inl (ConcurrentModificationError
                        ''Failed to register after max retries, please try again'')
             \<and> slept (snd (add_participant rid k s0)) = slept s0 @ map backoff [0..<MAX_RETRIES]"
    using g by blast
  have H: "\<forall>rid blob s0. message_attempts_lost rid blob [0..<MAX_RETRIES] s0 \<longrightarrow>
             fst (add_message rid blob s0)
               = Inl (ConcurrentModificationError
                        ''Failed to post message after max retries, please try again'')
             \<and> slept (snd (add_message rid blob s0)) = slept s0 @ map backoff [0..<MAX_RETRIES]"
    using h by blast
  show ?thesis
    by (rule conjI[OF a], rule conjI[OF b], rule conjI[OF S], rule conjI[OF C], rule conjI[OF D],
        rule conjI[OF E], rule conjI[OF F], rule conjI[OF G], rule conjI[OF H], rule backoff_values)
qed

theorem set_sorted_keys_single_attempt_witness:
  "get_room ''r1'' sys_race = (Some room_three, sys_three\<lparr>pending := [other_registers]\<rparr>)
   \<and> status room_three = OPEN \<and> 3 \<le> length [''k1'', ''k2'', ''k3'']
   \<and> length [''k1'', ''k2'', ''k3''] = length (participants room_three)
   \<and> distinct [''k1'', ''k2'', ''k3'']
   \<and> get_room (id' room_three) (sys_three\<lparr>pending := [other_registers]\<rparr>)
       = (Some room_four, store ''r1'' room_four sys_new)
   \<and> version room_four \<noteq> version room_three
   \<and> set_sorted_keys ''r1'' [''k1'', ''k2'', ''k3''] sys_race
       = (Inl (ConcurrentModificationError ''Room was modified during sorting''),
          store ''r1'' room_four sys_new)
   \<and> slept (store ''r1'' room_four sys_new) = slept sys_race
   \<and> add_participant ''r1'' ''key5'' sys_race = (Inr (), sys_five)
   \<and> slept sys_five = slept sys_race @ [TrueDiv 50 1000]
   \<and> get_room ''r1'' sys_message_race
       = (Some room_sorted, sys_sorted\<lparr>pending := [other_client_posts ''r1'' ''m1'']\<rparr>)
   \<and> status room_sorted \<noteq> OPEN \<and> length (messages room_sorted) < length (sorted_keys room_sorted)
   \<and> get_room (id' room_sorted) (sys_sorted\<lparr>pending := [other_client_posts ''r1'' ''m1'']\<rparr>)
       = (Some room_messaging, sys_messaging)
   \<and> version room_messaging \<noteq> version room_sorted
   \<and> add_message ''r1'' ''mA'' sys_message_race
       = (Inr (), time_sleep (TrueDiv 50 1000)
                    (store ''r1'' (room_messaging\<lparr>messages := [''m1'', ''mA''], version := 6\<rparr>) sys_new))
   \<and> register_attempts_lost ''r1'' ''keyA'' [0..<MAX_RETRIES] sys_busy_register
   \<and> fst (add_participant ''r1'' ''keyA'' sys_busy_register)
       = Inl (ConcurrentModificationError ''Failed to register after max retries, please try again'')
   \<and> slept (snd (add_participant ''r1'' ''keyA'' sys_busy_register))
       = slept sys_busy_register @ [TrueDiv 50 1000, TrueDiv 100 1000, TrueDiv 200 1000,
                                    TrueDiv 400 1000, TrueDiv 800 1000]
   \<and> message_attempts_lost ''r1'' ''mA'' [0..<MAX_RETRIES] sys_busy_message
   \<and> fst (add_message ''r1'' ''mA'' sys_busy_message)
       = Inl (ConcurrentModificationError ''Failed to post message after max retries, please try again'')
   \<and> slept (snd (add_message ''r1'' ''mA'' sys_busy_message))
       = slept sys_busy_message @ [TrueDiv 50 1000, TrueDiv 100 1000, TrueDiv 200 1000,
                                   TrueDiv 400 1000, TrueDiv 800 1000]"
proof -
  have k: "status room_three = OPEN" "3 \<le> length [''k1'', ''k2'', ''k3'']"
    "length [''k1'', ''k2'', ''k3''] = length (participants room_three)"
    "distinct [''k1'', ''k2'', ''k3'']"
    by (simp_all add: sys_three_facts)
  have v: "version room_four \<noteq> version room_three"
    by (simp add: room_four_def room_three_def)
  then have c: "Some room_four = None \<or> (\<exists>c. Some room_four = Some c \<and> version c \<noteq> version room_three)"
    by simp
  note T = set_sorted_keys_single_attempt[OF race_read k race_check c]
  have a: "set_sorted_keys ''r1'' [''k1'', ''k2'', ''k3''] sys_race
       = (Inl (ConcurrentModificationError ''Room was modified during sorting''),
          store ''r1'' room_four sys_new)"
    "slept (store ''r1'' room_four sys_new) = slept sys_race"
    using T by blast+
  have five: "add_participant ''r1'' ''key5'' sys_race = (Inr (), sys_five)"
    using sys_race_register by (simp add: sys_five_def)
  have sl5: "slept sys_five = slept sys_race @ [TrueDiv 50 1000]"
    by (simp add: sys_five_def sys_race_def eval_defs)
  have km: "status room_sorted \<noteq> OPEN" "length (messages room_sorted) < length (sorted_keys room_sorted)"
    "version room_messaging \<noteq> version room_sorted"
    by (simp_all add: room_messaging_def room_sorted_def room_three_def room_new_def)
  then have cm: "Some room_messaging = None
      \<or> (\<exists>c'. Some room_messaging = Some c' \<and> version c' \<noteq> version room_sorted)"
    by simp
  from T have "\<forall>attempt rest rid blob t r t1 c t2.
             get_room rid t = (Some r, t1) \<longrightarrow> status r \<noteq> OPEN \<longrightarrow>
             length (messages r) < length (sorted_keys r) \<longrightarrow>
             get_room (id' r) t1 = (c, t2) \<longrightarrow>
             (c = None \<or> (\<exists>c'. c = Some c' \<and> version c' \<noteq> version r)) \<longrightarrow>
             add_message_loop (attempt # rest) rid blob t
               = add_message_loop rest rid blob (time_sleep (backoff attempt) t2)"
    by blast
  with message_race_read km(1,2) message_race_check cm
  have "add_message_loop (0 # [1, 2, 3, 4]) ''r1'' ''mA'' sys_message_race
          = add_message_loop [1, 2, 3, 4] ''r1'' ''mA'' (time_sleep (backoff 0) sys_messaging)"
    by blast
  then have post: "add_message ''r1'' ''mA'' sys_message_race
       = (Inr (), time_sleep (TrueDiv 50 1000)
                    (store ''r1'' (room_messaging\<lparr>messages := [''m1'', ''mA''], version := 6\<rparr>) sys_new))"
    unfolding add_message_def upt_MAX_RETRIES by (simp only: message_race_retry)
  from T busy_register_lost
  have br: "fst (add_participant ''r1'' ''keyA'' sys_busy_register)
       = Inl (ConcurrentModificationError ''Failed to register after max retries, please try again'')"
    "slept (snd (add_participant ''r1'' ''keyA'' sys_busy_register))
       = slept sys_busy_register @ map backoff [0..<MAX_RETRIES]"
    by blast+
  from T busy_message_lost
  have bm: "fst (add_message ''r1'' ''mA'' sys_busy_message)
       = Inl (ConcurrentModificationError ''Failed to post message after max retries, please try again'')"
    "slept (snd (add_message ''r1'' ''mA'' sys_busy_message))
       = slept sys_busy_message @ map backoff [0..<MAX_RETRIES]"
    by blast+
  from T have bv: "map backoff [0..<MAX_RETRIES]
           = [TrueDiv 50 1000, TrueDiv 100 1000, TrueDiv 200 1000, TrueDiv 400 1000,
              TrueDiv 800 1000]"
    by blast
  show ?thesis
    using race_read k race_check v a five sl5 message_race_read km message_race_check post
      busy_register_lost br busy_message_lost bm
    unfolding bv by (intro conjI) assumption+
qed

end
